theory Spec2Isabelle
  imports Complex_Main "HOL-Library.Sublist"
begin

section \<open>Python string primitives\<close>

text \<open>
  A Python \<open>str\<close> is modelled as a \<open>string\<close>: a list of characters with code points
  0..255 (Latin-1).  Within that range \<open>str.isspace\<close>, the regular expression class
  \<open>\s\<close> and \<open>str.lower\<close> are as defined below; there \<open>str.lower\<close> maps each
  character to one character.  A string with a code point above 255 is not a value of
  the model.  What the theorems below say about lower-casing is said of the lower-cased
  string \<open>py_lower s\<close>.
\<close>

definition is_space :: "char \<Rightarrow> bool" where
  "is_space c = ((of_char c :: nat) \<in> {9, 10, 11, 12, 13, 28, 29, 30, 31, 32, 133, 160})"

definition is_lower_alnum :: "char \<Rightarrow> bool" where
  "is_lower_alnum c = (let n = (of_char c :: nat) in (97 \<le> n \<and> n \<le> 122) \<or> (48 \<le> n \<and> n \<le> 57))"

definition lower_char :: "char \<Rightarrow> char" where
  "lower_char c = (let n = (of_char c :: nat) in
     if (65 \<le> n \<and> n \<le> 90) \<or> (192 \<le> n \<and> n \<le> 222 \<and> n \<noteq> 215) then char_of (n + 32) else c)"

definition upper_char :: "char \<Rightarrow> char" where
  \<comment> \<open>\<open>str.upper\<close> on the code points whose upper case is again one Latin-1 character;
      the three others (181, 223, 255) are left as they are.\<close>
  "upper_char c = (let n = (of_char c :: nat) in
     if (97 \<le> n \<and> n \<le> 122) \<or> (224 \<le> n \<and> n \<le> 254 \<and> n \<noteq> 247) then char_of (n - 32) else c)"

definition py_lower :: "string \<Rightarrow> string" where
  "py_lower s = map lower_char s"

definition py_upper :: "string \<Rightarrow> string" where
  "py_upper s = map upper_char s"

definition py_strip :: "string \<Rightarrow> string" where
  "py_strip s = rev (dropWhile is_space (rev (dropWhile is_space s)))"

text \<open>\<open>re.sub(r'[^a-z0-9\s]', ' ', s)\<close>\<close>

definition sub_special :: "string \<Rightarrow> string" where
  "sub_special s = map (\<lambda>c. if is_lower_alnum c \<or> is_space c then c else CHR '' '') s"

text \<open>\<open>re.sub(r'\s+', ' ', s)\<close>: the flag says whether the scan is inside a run of whitespace.\<close>

fun collapse_ws :: "bool \<Rightarrow> string \<Rightarrow> string" where
  "collapse_ws in_run [] = []"
| "collapse_ws in_run (c # cs) =
     (if is_space c then (if in_run then collapse_ws True cs else CHR '' '' # collapse_ws True cs)
      else c # collapse_ws False cs)"

text \<open>\<open>s.split()\<close>: the first argument is the word being read.\<close>

fun split_acc :: "string \<Rightarrow> string \<Rightarrow> string list" where
  "split_acc w [] = (if w = [] then [] else [w])"
| "split_acc w (c # cs) =
     (if is_space c then (if w = [] then split_acc [] cs else w # split_acc [] cs)
      else split_acc (w @ [c]) cs)"

definition py_split :: "string \<Rightarrow> string list" where
  "py_split s = split_acc [] s"

fun py_join :: "string \<Rightarrow> string list \<Rightarrow> string" where
  "py_join sep [] = []"
| "py_join sep [w] = w"
| "py_join sep (w # ws) = w @ sep @ py_join sep ws"

text \<open>
  \<open>s.replace(old, new)\<close> for a non-empty \<open>old\<close>: leftmost matches, not overlapping.
  (Every \<open>old\<close> of the source is a non-empty literal; for an empty \<open>old\<close> the function
  below returns \<open>s\<close>.)
\<close>

function py_replace :: "string \<Rightarrow> string \<Rightarrow> string \<Rightarrow> string" where
  "py_replace old new [] = []"
| "py_replace old new (c # cs) =
     (if old \<noteq> [] \<and> prefix old (c # cs)
      then new @ py_replace old new (drop (length old) (c # cs))
      else c # py_replace old new cs)"
  by pat_completeness auto
termination
  by (relation "measure (\<lambda>(old, new, s). length s)") (auto simp: Suc_le_eq)

section \<open>LocationNormalizer\<close>

definition COMMON_SUFFIXES :: "string set" where
  "COMMON_SUFFIXES = {''lagos'', ''nigeria'', ''ng'', ''lga'', ''state'', ''area''}"

definition REPLACEMENTS :: "(string \<times> string) list" where
  "REPLACEMENTS = [(''str'', ''street''), (''rd'', ''road''), (''ave'', ''avenue''), (''st'', ''street'')]"

definition apply_replacement :: "string \<times> string \<Rightarrow> string \<Rightarrow> string" where
  "apply_replacement p s = py_replace ('' '' @ fst p @ '' '') ('' '' @ snd p @ '' '') s"

definition normalize_name :: "string \<Rightarrow> string" where
  "normalize_name name =
     (if name = [] then []
      else
        let normalized = py_strip (py_lower name);
            normalized = sub_special normalized;
            normalized = collapse_ws False normalized;
            words = py_split normalized;
            filtered_words = filter (\<lambda>w. w \<notin> COMMON_SUFFIXES) words;
            filtered_words = (if filtered_words = [] then take 2 (py_split normalized) else filtered_words);
            normalized = py_join '' '' filtered_words;
            normalized = fold apply_replacement REPLACEMENTS normalized
        in py_strip normalized)"

definition generate_trigrams :: "string \<Rightarrow> string list" where
  "generate_trigrams text =
     (if text = [] \<or> length text < 3 then []
      else
        let t = filter (\<lambda>c. c \<noteq> CHR '' '') (py_lower text)
        in map (\<lambda>i. take 3 (drop i t)) [0 ..< length t - 2])"

text \<open>\<open>re.sub(r'(.)\1+', r'\1', s)\<close>: a run of one character, other than a newline, becomes one.\<close>

fun collapse_dups :: "string \<Rightarrow> string" where
  "collapse_dups [] = []"
| "collapse_dups [c] = [c]"
| "collapse_dups (c # d # cs) =
     (if c = d \<and> c \<noteq> CHR 0x0A then collapse_dups (d # cs) else c # collapse_dups (d # cs))"

definition metaphone_simple :: "string \<Rightarrow> string" where
  "metaphone_simple text0 =
     (if text0 = [] then []
      else
        let text = py_upper text0;
            result = (if length text > 1
                      then hd text # filter (\<lambda>c. c \<notin> set ''AEIOU'') (tl text)
                      else text);
            result = collapse_dups result;
            result = fold (\<lambda>(old, new) s. py_replace old new s)
                       [(''PH'', ''F''), (''CK'', ''K''), (''SH'', ''X''), (''CH'', ''X'')] result
        in take 10 result)"

text \<open>
  The source computes \<open>intersection / union\<close> on floats; the quotient of the two
  cardinalities is modelled as the exact rational number.
\<close>

definition calculate_similarity :: "string \<Rightarrow> string \<Rightarrow> rat" where
  "calculate_similarity str1 str2 =
     (if str1 = [] \<or> str2 = [] then 0
      else
        let trigrams1 = set (generate_trigrams str1);
            trigrams2 = set (generate_trigrams str2)
        in if trigrams1 = {} \<or> trigrams2 = {}
           then (if py_lower str1 = py_lower str2 then 1 else 0)
           else
             let intersection = card (trigrams1 \<inter> trigrams2);
                 union = card (trigrams1 \<union> trigrams2)
             in if union > 0 then of_nat intersection / of_nat union else 0)"

section \<open>External libraries\<close>

text \<open>
  The H3 library (\<open>h3.latlng_to_cell\<close>, \<open>h3.grid_disk\<close>, \<open>h3.cell_to_latlng\<close>) is
  not part of the repository: the services take it as a parameter.  Latitudes and
  longitudes are real numbers.
\<close>

record h3lib =
  latlng_to_cell :: "real \<Rightarrow> real \<Rightarrow> nat \<Rightarrow> string"
  grid_disk :: "string \<Rightarrow> nat \<Rightarrow> string list"
  cell_to_latlng :: "string \<Rightarrow> real \<times> real"

text \<open>
  \<open>Levenshtein.distance\<close>: the least number of single-character insertions, deletions
  and substitutions that turn one string into the other.
\<close>

fun levenshtein :: "string \<Rightarrow> string \<Rightarrow> nat" where
  "levenshtein [] ys = length ys"
| "levenshtein (x # xs) [] = Suc (length xs)"
| "levenshtein (x # xs) (y # ys) =
     (if x = y then levenshtein xs ys
      else Suc (min (levenshtein xs (y # ys)) (min (levenshtein (x # xs) ys) (levenshtein xs ys))))"

section \<open>Models and the store\<close>

record GeoBucket =
  bucket_id :: nat
  h3_index :: string
  centroid :: "real \<times> real"
  normalized_name :: string
  variant_names :: "string list"
  property_count :: int

record LocationIndex =
  li_original_name :: string
  li_normalized_name :: string
  li_bucket :: nat
  li_metaphone :: string
  li_trigrams :: "string list"

text \<open>
  The database: the rows of \<open>geo_buckets\<close> and of \<open>location_index\<close> and the next
  primary key of \<open>geo_buckets\<close>.  A query returns the matching rows in the order of
  the list, and an insert puts the new row at its end; the ordering of \<open>Meta.ordering\<close>
  (by property count, then by name) is not part of the model.  The foreign key
  \<open>LocationIndex.bucket\<close> is the bucket's primary key.
\<close>

record store =
  buckets :: "GeoBucket list"
  location_index :: "LocationIndex list"
  next_id :: nat

text \<open>
  The exceptions of the database layer and of the serializer: a violated unique or
  foreign-key constraint (\<open>IntegrityError\<close>), a value longer than its column
  (\<open>DataError\<close>), a \<open>save\<close> with \<open>update_fields\<close> that finds no row (\<open>DatabaseError\<close>),
  and the serializer's \<open>ValidationError\<close>.
\<close>

datatype error = IntegrityError | DataError | DatabaseError | ValidationError string

definition empty_store :: store where
  "empty_store = \<lparr>buckets = [], location_index = [], next_id = 1\<rparr>"

text \<open>\<open>GeoBucket.objects.filter(h3_index=...).first()\<close>\<close>

definition first_by_cell :: "store \<Rightarrow> string \<Rightarrow> GeoBucket option" where
  "first_by_cell s c = find (\<lambda>b. h3_index b = c) (buckets s)"

text \<open>
  \<open>GeoBucket.objects.create(...)\<close>.  The columns are declared with
  \<open>h3_index max_length=15\<close>, \<open>normalized_name max_length=255\<close> and
  \<open>variant_names\<close> an array of \<open>CharField(max_length=255)\<close>: a longer value fails with
  \<open>DataError\<close>.  \<open>h3_index\<close> is declared \<open>unique=True\<close>: the insert fails with
  \<open>IntegrityError\<close> when a row with that cell exists.
\<close>

definition objects_create ::
  "store \<Rightarrow> string \<Rightarrow> real \<times> real \<Rightarrow> string \<Rightarrow> string list \<Rightarrow> error + (GeoBucket \<times> store)" where
  "objects_create s c pt nname vnames =
     (if length c > 15 \<or> length nname > 255 \<or> (\<exists>v \<in> set vnames. length v > 255)
      then Inl DataError
      else if \<exists>b \<in> set (buckets s). h3_index b = c then Inl IntegrityError
      else
        let b = \<lparr>bucket_id = next_id s, h3_index = c, centroid = pt, normalized_name = nname,
                 variant_names = vnames, property_count = 0\<rparr>
        in Inr (b, s\<lparr>buckets := buckets s @ [b], next_id := Suc (next_id s)\<rparr>))"

text \<open>
  \<open>self.save(update_fields=['variant_names', 'updated_at'])\<close>: the whole array of the
  instance is written to the row with its primary key.  A variant longer than the
  column fails with \<open>DataError\<close>; when no row has the key, \<open>save\<close> raises
  \<open>DatabaseError\<close>.
\<close>

definition save_variant_names :: "store \<Rightarrow> GeoBucket \<Rightarrow> error + store" where
  "save_variant_names s b =
     (if \<exists>v \<in> set (variant_names b). length v > 255 then Inl DataError
      else if \<not> (\<exists>r \<in> set (buckets s). bucket_id r = bucket_id b) then Inl DatabaseError
      else Inr (s\<lparr>buckets := map (\<lambda>r. if bucket_id r = bucket_id b
                                       then r\<lparr>variant_names := variant_names b\<rparr> else r)
                                  (buckets s)\<rparr>))"

text \<open>
  \<open>GeoBucket.add_variant_name\<close>: the membership test and the new array are those of the
  instance \<open>b\<close>, as it was read; the store \<open>s\<close> is the database at the time of the save.
\<close>

definition add_variant_name :: "store \<Rightarrow> GeoBucket \<Rightarrow> string \<Rightarrow> error + (GeoBucket \<times> store)" where
  "add_variant_name s b name =
     (if name \<noteq> [] \<and> name \<notin> set (variant_names b)
      then (let b' = b\<lparr>variant_names := variant_names b @ [name]\<rparr>
            in case save_variant_names s b' of
                 Inl e \<Rightarrow> Inl e
               | Inr s' \<Rightarrow> Inr (b', s'))
      else Inr (b, s))"

text \<open>
  \<open>LocationIndex.objects.create(...)\<close>.  The columns are declared with
  \<open>original_name\<close> and \<open>normalized_name max_length=255\<close>, \<open>metaphone max_length=50\<close> and
  \<open>trigrams\<close> an array of \<open>CharField(max_length=3)\<close>; \<open>unique_together\<close> is
  \<open>(original_name, bucket)\<close>, and \<open>bucket\<close> is a foreign key.
\<close>

definition index_create :: "store \<Rightarrow> LocationIndex \<Rightarrow> error + store" where
  "index_create s e =
     (if length (li_original_name e) > 255 \<or> length (li_normalized_name e) > 255
         \<or> length (li_metaphone e) > 50 \<or> (\<exists>t \<in> set (li_trigrams e). length t > 3)
      then Inl DataError
      else if (\<exists>e' \<in> set (location_index s).
                 li_original_name e' = li_original_name e \<and> li_bucket e' = li_bucket e)
              \<or> \<not> (\<exists>r \<in> set (buckets s). bucket_id r = li_bucket e)
      then Inl IntegrityError
      else Inr (s\<lparr>location_index := location_index s @ [e]\<rparr>))"

text \<open>
  A call reads and writes the database several times, and other transactions may commit
  in between.  A schedule says what they commit: after the lookup by cell, after the
  write of the bucket (its insert or the save of its variant names) and after the check
  whether the name is indexed.  In the schedule \<open>alone\<close> nothing else commits.
\<close>

record schedule =
  after_lookup :: "store \<Rightarrow> store"
  after_bucket_write :: "store \<Rightarrow> store"
  after_index_check :: "store \<Rightarrow> store"

definition alone :: schedule where
  "alone = \<lparr>after_lookup = (\<lambda>s. s), after_bucket_write = (\<lambda>s. s), after_index_check = (\<lambda>s. s)\<rparr>"

section \<open>BucketService\<close>

definition H3_RESOLUTION :: nat where
  "H3_RESOLUTION = 9"

definition calculate_h3_index :: "h3lib \<Rightarrow> real \<Rightarrow> real \<Rightarrow> string" where
  "calculate_h3_index h3 lat lng = latlng_to_cell h3 lat lng H3_RESOLUTION"

definition get_h3_neighbors :: "h3lib \<Rightarrow> string \<Rightarrow> string list" where
  "get_h3_neighbors h3 c = grid_disk h3 c 1"

definition h3_to_coordinates :: "h3lib \<Rightarrow> string \<Rightarrow> real \<times> real" where
  "h3_to_coordinates h3 c = cell_to_latlng h3 c"

text \<open>
  \<open>_add_to_location_index\<close>: the check whether the name is indexed for the bucket, and
  the insert when it is not.
\<close>

definition add_to_location_index ::
  "schedule \<Rightarrow> store \<Rightarrow> GeoBucket \<Rightarrow> string \<Rightarrow> string \<Rightarrow> error + store" where
  "add_to_location_index sched s bucket original_name nname =
     (let s1 = after_bucket_write sched s
      in if \<exists>e \<in> set (location_index s1).
              li_original_name e = original_name \<and> li_bucket e = bucket_id bucket
         then Inr s1
         else
           let trigrams = generate_trigrams nname;
               metaphone = metaphone_simple nname
           in index_create (after_index_check sched s1)
                \<lparr>li_original_name = original_name, li_normalized_name = nname,
                 li_bucket = bucket_id bucket, li_metaphone = metaphone, li_trigrams = trigrams\<rparr>)"

text \<open>
  \<open>find_or_create_bucket\<close>.  No exception is caught in the source, so the first error
  of the database is the result of the call.  The result of a successful call is the
  bucket instance it returns and the database after it; the database after a failed
  call is not part of the result.
\<close>

definition find_or_create_bucket ::
  "h3lib \<Rightarrow> schedule \<Rightarrow> store \<Rightarrow> real \<Rightarrow> real \<Rightarrow> string \<Rightarrow> error + (GeoBucket \<times> store)" where
  "find_or_create_bucket h3 sched s lat lng location_name =
     (let c = calculate_h3_index h3 lat lng;
          nname = normalize_name location_name
      in case first_by_cell s c of
           Some bucket \<Rightarrow>
             (case add_variant_name (after_lookup sched s) bucket location_name of
                Inl e \<Rightarrow> Inl e
              | Inr (bucket', s1) \<Rightarrow>
                  (case add_to_location_index sched s1 bucket' location_name nname of
                     Inl e \<Rightarrow> Inl e
                   | Inr s2 \<Rightarrow> Inr (bucket', s2)))
         | None \<Rightarrow>
             (let (centroid_lat, centroid_lng) = h3_to_coordinates h3 c;
                  pt = (centroid_lng, centroid_lat)
              in case objects_create (after_lookup sched s) c pt nname
                        (if location_name \<noteq> [] then [location_name] else []) of
                   Inl e \<Rightarrow> Inl e
                 | Inr (bucket, s1) \<Rightarrow>
                     (case add_to_location_index sched s1 bucket location_name nname of
                        Inl e \<Rightarrow> Inl e
                      | Inr s2 \<Rightarrow> Inr (bucket, s2))))"

section \<open>PropertySerializer.validate\<close>


section \<open>LocationMatcher\<close>

datatype db_query =
    Q_buckets_iexact string
  | Q_buckets_in_cells "string list"
  | Q_buckets_all
  | Q_index_icontains string
  | Q_index_metaphone string
  | Q_bucket_by_id nat

definition GOOD_MATCH_THRESHOLD :: rat where
  "GOOD_MATCH_THRESHOLD = 8 / 10"

definition ACCEPTABLE_MATCH_THRESHOLD :: rat where
  "ACCEPTABLE_MATCH_THRESHOLD = 6 / 10"

definition MAX_LEVENSHTEIN_DISTANCE :: nat where
  "MAX_LEVENSHTEIN_DISTANCE = 2"

text \<open>Python's \<open>needle in hay\<close> on strings.\<close>

fun py_contains :: "string \<Rightarrow> string \<Rightarrow> bool" where
  "py_contains needle [] = (needle = [])"
| "py_contains needle (c # cs) = (prefix needle (c # cs) \<or> py_contains needle cs)"

text \<open>The lookups \<open>__iexact\<close> and \<open>__icontains\<close> compare the upper-cased strings.\<close>

definition iexact :: "string \<Rightarrow> string \<Rightarrow> bool" where
  "iexact col v = (py_upper col = py_upper v)"

definition icontains :: "string \<Rightarrow> string \<Rightarrow> bool" where
  "icontains col v = py_contains (py_upper v) (py_upper col)"

text \<open>\<open>index.bucket\<close>: the row of the foreign key.\<close>

definition bucket_of :: "store \<Rightarrow> LocationIndex \<Rightarrow> GeoBucket list" where
  "bucket_of s e = (case find (\<lambda>b. bucket_id b = li_bucket e) (buckets s) of
                      None \<Rightarrow> [] | Some b \<Rightarrow> [b])"

definition validate_coords :: "real \<Rightarrow> real \<Rightarrow> bool" where
  "validate_coords lat lng =
     (if \<not> (4 \<le> lat \<and> lat \<le> 14) then False
      else if \<not> (3 \<le> lng \<and> lng \<le> 15) then False
      else True)"

definition exact_name_match :: "store \<Rightarrow> string \<Rightarrow> GeoBucket list \<times> db_query list" where
  "exact_name_match s nname =
     (filter (\<lambda>b. iexact (normalized_name b) nname) (buckets s), [Q_buckets_iexact nname])"

definition is_name_match :: "string \<Rightarrow> string \<Rightarrow> bool" where
  "is_name_match search_name bucket_name =
     (if search_name = bucket_name then True
      else if py_contains search_name bucket_name \<or> py_contains bucket_name search_name then True
      else calculate_similarity search_name bucket_name \<ge> GOOD_MATCH_THRESHOLD)"

fun check_variant_names :: "string \<Rightarrow> string list \<Rightarrow> bool" where
  "check_variant_names search_name [] = False"
| "check_variant_names search_name (variant # rest) =
     (if is_name_match search_name (normalize_name variant) then True
      else check_variant_names search_name rest)"

definition spatial_name_match ::
  "h3lib \<Rightarrow> store \<Rightarrow> string \<Rightarrow> real \<Rightarrow> real \<Rightarrow> GeoBucket list \<times> db_query list" where
  "spatial_name_match h3 s nname lat lng =
     (let c = calculate_h3_index h3 lat lng;
          neighbor_indices = get_h3_neighbors h3 c;
          bs = filter (\<lambda>b. h3_index b \<in> set neighbor_indices) (buckets s)
      in (filter (\<lambda>b. is_name_match nname (normalized_name b)
                       \<or> check_variant_names nname (variant_names b)) bs,
          [Q_buckets_in_cells neighbor_indices]))"

text \<open>The three methods of \<open>_fuzzy_name_match\<close>, in the order of the source.\<close>

definition levenshtein_matches :: "store \<Rightarrow> string \<Rightarrow> GeoBucket list \<times> db_query list" where
  "levenshtein_matches s nname =
     (filter (\<lambda>b. levenshtein nname (normalized_name b) \<le> MAX_LEVENSHTEIN_DISTANCE) (buckets s),
      [Q_buckets_all])"

definition trigram_matches :: "store \<Rightarrow> string \<Rightarrow> GeoBucket list \<times> db_query list" where
  "trigram_matches s nname =
     (let indices = filter (\<lambda>e. icontains (li_normalized_name e) (take 3 nname)) (location_index s);
          hits = filter (\<lambda>e. calculate_similarity nname (li_normalized_name e)
                              \<ge> ACCEPTABLE_MATCH_THRESHOLD) indices
      in (concat (map (bucket_of s) hits),
          Q_index_icontains (take 3 nname) # map (\<lambda>e. Q_bucket_by_id (li_bucket e)) hits))"

definition metaphone_matches :: "store \<Rightarrow> string \<Rightarrow> GeoBucket list \<times> db_query list" where
  "metaphone_matches s nname =
     (let metaphone = metaphone_simple nname
      in if metaphone \<noteq> []
         then (let metaphone_indices = filter (\<lambda>e. li_metaphone e = metaphone) (location_index s)
               in (concat (map (bucket_of s) metaphone_indices),
                   Q_index_metaphone metaphone
                     # map (\<lambda>e. Q_bucket_by_id (li_bucket e)) metaphone_indices))
         else ([], []))"

definition fuzzy_name_match :: "store \<Rightarrow> string \<Rightarrow> GeoBucket list \<times> db_query list" where
  "fuzzy_name_match s nname =
     (let (m1, q1) = levenshtein_matches s nname;
          (m2, q2) = trigram_matches s nname;
          (m3, q3) = metaphone_matches s nname
      in (m1 @ m2 @ m3, q1 @ q2 @ q3))"

fun dedup_loop :: "nat set \<Rightarrow> GeoBucket list \<Rightarrow> GeoBucket list \<Rightarrow> GeoBucket list" where
  "dedup_loop seen_ids unique_buckets [] = unique_buckets"
| "dedup_loop seen_ids unique_buckets (bucket # rest) =
     (if bucket_id bucket \<notin> seen_ids
      then dedup_loop (insert (bucket_id bucket) seen_ids) (unique_buckets @ [bucket]) rest
      else dedup_loop seen_ids unique_buckets rest)"

definition deduplicate_buckets :: "GeoBucket list \<Rightarrow> GeoBucket list" where
  "deduplicate_buckets bs = dedup_loop {} [] bs"

text \<open>The result of \<open>find_matching_buckets\<close> and the queries it sent to the database.\<close>

definition find_matching_buckets ::
  "h3lib \<Rightarrow> store \<Rightarrow> string \<Rightarrow> real option \<Rightarrow> real option \<Rightarrow> int \<Rightarrow> GeoBucket list \<times> db_query list" where
  "find_matching_buckets h3 s search_term lat lng min_results =
     (if search_term = [] then ([], [])
      else
        let normalized_search = normalize_name search_term;
            (l1, q1) = exact_name_match s normalized_search;
            bs = l1
        in if int (length bs) \<ge> min_results then (deduplicate_buckets bs, q1)
           else if lat \<noteq> None \<and> lng \<noteq> None \<and> validate_coords (the lat) (the lng)
           then
             (let (spatial_buckets, q2) = spatial_name_match h3 s normalized_search (the lat) (the lng);
                  bs = bs @ spatial_buckets
              in if int (length bs) \<ge> min_results then (deduplicate_buckets bs, q1 @ q2)
                 else
                   (let (fuzzy_buckets, q3) = fuzzy_name_match s normalized_search
                    in (deduplicate_buckets (bs @ fuzzy_buckets), q1 @ q2 @ q3)))
           else
             (let (fuzzy_buckets, q3) = fuzzy_name_match s normalized_search
              in (deduplicate_buckets (bs @ fuzzy_buckets), q1 @ q3)))"

section \<open>Specification-level notions and concrete instances\<close>

text \<open>
  Deduplication as the specification words it: the element at position \<open>i\<close> is kept
  exactly when no earlier element has its identity, and the kept elements stay in order.
\<close>

definition first_seen :: "GeoBucket list \<Rightarrow> GeoBucket list" where
  "first_seen bs =
     map (\<lambda>i. bs ! i)
       (filter (\<lambda>i. bucket_id (bs ! i) \<notin> set (map bucket_id (take i bs))) [0 ..< length bs])"

text \<open>A stand-in for the H3 library that puts every coordinate into one cell.\<close>

definition one_cell_h3 :: h3lib where
  "one_cell_h3 = \<lparr>latlng_to_cell = (\<lambda>lat lng res. ''8958e1a2b3fffff''),
                  grid_disk = (\<lambda>c k. [c]),
                  cell_to_latlng = (\<lambda>c. (0, 0))\<rparr>"

text \<open>The store after \<open>find_or_create_bucket(6.47, 3.63, "Ajah")\<close> on the empty store.\<close>

definition ajah_bucket :: GeoBucket where
  "ajah_bucket = \<lparr>bucket_id = 1, h3_index = ''8958e1a2b3fffff'', centroid = (0, 0),
                  normalized_name = ''ajah'', variant_names = [''Ajah''], property_count = 0\<rparr>"

definition ajah_store :: store where
  "ajah_store = \<lparr>buckets = [ajah_bucket],
                 location_index = [\<lparr>li_original_name = ''Ajah'', li_normalized_name = ''ajah'',
                                    li_bucket = 1, li_metaphone = ''AJH'',
                                    li_trigrams = [''aja'', ''jah'']\<rparr>],
                 next_id = 2\<rparr>"

text \<open>
  A second call of \<open>find_or_create_bucket\<close>, run alone, as the transaction that commits
  between two steps of the first: for the same cell and name, and for the same cell and
  another name.
\<close>

definition concurrent_assign :: "store \<Rightarrow> store" where
  "concurrent_assign s =
     (case find_or_create_bucket one_cell_h3 alone s (647 / 100) (363 / 100) ''Ajah'' of
        Inl e \<Rightarrow> s | Inr (b, s') \<Rightarrow> s')"

definition concurrent_variant :: "store \<Rightarrow> store" where
  "concurrent_variant s =
     (case find_or_create_bucket one_cell_h3 alone s (647 / 100) (363 / 100) ''Ajah, Lagos'' of
        Inl e \<Rightarrow> s | Inr (b, s') \<Rightarrow> s')"

definition create_race :: schedule where
  "create_race = alone\<lparr>after_lookup := concurrent_assign\<rparr>"

definition variant_race :: schedule where
  "variant_race = alone\<lparr>after_lookup := concurrent_variant\<rparr>"

text \<open>The store after \<open>find_or_create_bucket(6.47, 3.63, "")\<close> on the empty store.\<close>

definition unnamed_bucket :: GeoBucket where
  "unnamed_bucket = \<lparr>bucket_id = 1, h3_index = ''8958e1a2b3fffff'', centroid = (0, 0),
                     normalized_name = [], variant_names = [], property_count = 0\<rparr>"

definition unnamed_store :: store where
  "unnamed_store = \<lparr>buckets = [unnamed_bucket],
                    location_index = [\<lparr>li_original_name = [], li_normalized_name = [],
                                       li_bucket = 1, li_metaphone = [], li_trigrams = []\<rparr>],
                    next_id = 2\<rparr>"

text \<open>The primary key of \<open>geo_buckets\<close>: identities are unique and below the next key.\<close>

definition wf_store :: "store \<Rightarrow> bool" where
  "wf_store s = (distinct (map bucket_id (buckets s))
                 \<and> list_all (\<lambda>b. bucket_id b < next_id s) (buckets s))"

definition variants_distinct :: "store \<Rightarrow> bool" where
  "variants_distinct s = list_all (\<lambda>b. distinct (variant_names b)) (buckets s)"

text \<open>The store after \<open>find_or_create_bucket(6.47, 3.63, "VI")\<close> on the empty store.\<close>

definition vi_bucket :: GeoBucket where
  "vi_bucket = \<lparr>bucket_id = 1, h3_index = ''8958e1a2b3fffff'', centroid = (0, 0),
                normalized_name = ''vi'', variant_names = [''VI''], property_count = 0\<rparr>"

definition vi_store :: store where
  "vi_store = \<lparr>buckets = [vi_bucket],
               location_index = [\<lparr>li_original_name = ''VI'', li_normalized_name = ''vi'',
                                  li_bucket = 1, li_metaphone = ''V'', li_trigrams = []\<rparr>],
               next_id = 2\<rparr>"

text \<open>Every stored value fits its column.\<close>

definition within_limits :: "store \<Rightarrow> bool" where
  "within_limits s =
     (list_all (\<lambda>b. length (h3_index b) \<le> 15 \<and> length (normalized_name b) \<le> 255
                      \<and> list_all (\<lambda>v. length v \<le> 255) (variant_names b)) (buckets s)
      \<and> list_all (\<lambda>e. length (li_original_name e) \<le> 255 \<and> length (li_normalized_name e) \<le> 255)
           (location_index s))"

text \<open>No bucket lists the empty string as a variant name.\<close>

definition no_empty_variant :: "store \<Rightarrow> bool" where
  "no_empty_variant s = list_all (\<lambda>b. [] \<notin> set (variant_names b)) (buckets s)"

text \<open>
  A store with five buckets whose canonical name is empty (created for names such as
  \<open>!!!\<close>) and the bucket \<open>vi\<close>.
\<close>

definition unnamed_in :: "nat \<Rightarrow> string \<Rightarrow> GeoBucket" where
  "unnamed_in i c = \<lparr>bucket_id = i, h3_index = c, centroid = (0, 0),
                     normalized_name = [], variant_names = [''!!!''], property_count = 0\<rparr>"

definition unnamed_entry :: "nat \<Rightarrow> LocationIndex" where
  "unnamed_entry i = \<lparr>li_original_name = ''!!!'', li_normalized_name = [],
                      li_bucket = i, li_metaphone = [], li_trigrams = []\<rparr>"

definition crowded_store :: store where
  "crowded_store =
     \<lparr>buckets = [unnamed_in 1 ''8958e1a2b37ffff'', unnamed_in 2 ''8958e1a2b27ffff'',
                 unnamed_in 3 ''8958e1a2b07ffff'', unnamed_in 4 ''8958e1a2b17ffff'',
                 unnamed_in 5 ''8958e1a2b0fffff'', vi_bucket\<lparr>bucket_id := 6\<rparr>],
      location_index = [unnamed_entry 1, unnamed_entry 2, unnamed_entry 3, unnamed_entry 4,
                        unnamed_entry 5,
                        \<lparr>li_original_name = ''VI'', li_normalized_name = ''vi'',
                         li_bucket = 6, li_metaphone = ''V'', li_trigrams = []\<rparr>],
      next_id = 7\<rparr>"

section \<open>Word-level view of the normaliser\<close>

text \<open>The text of \<open>normalize\<close> just before the split into words.\<close>

definition prefilter_text :: "string \<Rightarrow> string" where
  "prefilter_text name = collapse_ws False (sub_special (py_strip (py_lower name)))"

text \<open>A word of a normalised name: non-empty, of the characters \<open>a-z\<close> and \<open>0-9\<close>.\<close>

definition is_word :: "string \<Rightarrow> bool" where
  "is_word w = (w \<noteq> [] \<and> list_all is_lower_alnum w)"

text \<open>The words \<open>ws\<close>, each with a space before it.\<close>

definition spaced :: "string list \<Rightarrow> string" where
  "spaced ws = concat (map (\<lambda>w. CHR '' '' # w) ws)"

text \<open>
  What \<open>s.replace(' a ', ' b ')\<close> does to the words after the first one of a text whose
  words are separated by single spaces: a word \<open>a\<close> that is not the last becomes \<open>b\<close>,
  and the word after it is passed over, since the match has used up the space before it.
\<close>

fun srep :: "string \<Rightarrow> string \<Rightarrow> string list \<Rightarrow> string list" where
  "srep a b [] = []"
| "srep a b [w] = [w]"
| "srep a b (w # w' # ws) =
     (if w = a then b # w' # srep a b ws else w # srep a b (w' # ws))"

definition norm_words :: "string \<Rightarrow> string list" where
  "norm_words name =
     (let ws = py_split (prefilter_text name);
          fw = filter (\<lambda>w. w \<notin> COMMON_SUFFIXES) ws;
          fw = (if fw = [] then take 2 ws else fw)
      in case fw of
           [] \<Rightarrow> []
         | w # rest \<Rightarrow>
             w # srep ''st'' ''street'' (srep ''ave'' ''avenue'' (srep ''rd'' ''road''
                   (srep ''str'' ''street'' rest))))"

section \<open>Deduplication of the matcher's result\<close>

lemma dedup_loop_append:
  "dedup_loop seen uniq (bs @ cs) =
     dedup_loop (seen \<union> set (map bucket_id bs)) (dedup_loop seen uniq bs) cs"
  by (induction bs arbitrary: seen uniq) (auto simp: insert_absorb)

lemma dedup_loop_snoc:
  "dedup_loop seen uniq (bs @ [b]) =
     (if bucket_id b \<in> seen \<union> set (map bucket_id bs) then dedup_loop seen uniq bs
      else dedup_loop seen uniq bs @ [b])"
  by (simp add: dedup_loop_append)

lemma first_seen_snoc:
  "first_seen (bs @ [b]) =
     (if bucket_id b \<in> set (map bucket_id bs) then first_seen bs else first_seen bs @ [b])"
proof -
  have a: "filter (\<lambda>i. bucket_id ((bs @ [b]) ! i) \<notin> set (map bucket_id (take i (bs @ [b])))) [0 ..< length bs]
        = filter (\<lambda>i. bucket_id (bs ! i) \<notin> set (map bucket_id (take i bs))) [0 ..< length bs]"
    by (rule filter_cong) (auto simp: nth_append)
  have b: "map (\<lambda>i. (bs @ [b]) ! i) (filter (\<lambda>i. bucket_id (bs ! i) \<notin> set (map bucket_id (take i bs))) [0 ..< length bs])
         = map (\<lambda>i. bs ! i) (filter (\<lambda>i. bucket_id (bs ! i) \<notin> set (map bucket_id (take i bs))) [0 ..< length bs])"
    by (rule map_cong) (auto simp: nth_append)
  show ?thesis
    unfolding first_seen_def using a b by (simp del: map_map)
qed

lemma deduplicate_buckets_first_seen: "deduplicate_buckets bs = first_seen bs"
proof (induction bs rule: rev_induct)
  case Nil
  show ?case by (simp add: deduplicate_buckets_def first_seen_def)
next
  case (snoc b bs)
  then show ?case
    by (simp add: deduplicate_buckets_def dedup_loop_snoc first_seen_snoc)
qed

lemma dedup_loop_distinct:
  "distinct (map bucket_id uniq) \<Longrightarrow> set (map bucket_id uniq) \<subseteq> seen \<Longrightarrow>
   distinct (map bucket_id (dedup_loop seen uniq bs))"
proof (induction bs arbitrary: seen uniq)
  case Nil
  then show ?case by simp
next
  case (Cons b bs)
  show ?case
  proof (cases "bucket_id b \<in> seen")
    case True
    with Cons show ?thesis by simp
  next
    case False
    have "distinct (map bucket_id (dedup_loop (insert (bucket_id b) seen) (uniq @ [b]) bs))"
      using Cons.prems False by (intro Cons.IH) auto
    with False show ?thesis by simp
  qed
qed

lemma deduplicate_buckets_distinct: "distinct (map bucket_id (deduplicate_buckets bs))"
  by (simp add: deduplicate_buckets_def dedup_loop_distinct)

text \<open>
  Claim C8.  For every query the list returned by \<open>find_matching_buckets\<close> holds each
  bucket identity at most once, and for a non-empty query it is the accumulated result
  of the layers that ran, reduced to the first occurrence of each identity, in order.
\<close>

theorem find_matching_buckets_deduplicated:
  "distinct (map bucket_id (fst (find_matching_buckets h3 s search_term lat lng min_results)))
   \<and> (search_term \<noteq> [] \<longrightarrow>
       (let n = normalize_name search_term;
            l1 = fst (exact_name_match s n);
            use_coords = (lat \<noteq> None \<and> lng \<noteq> None \<and> validate_coords (the lat) (the lng));
            l2 = (if use_coords then fst (spatial_name_match h3 s n (the lat) (the lng)) else []);
            l3 = fst (fuzzy_name_match s n)
        in fst (find_matching_buckets h3 s search_term lat lng min_results) =
             first_seen (if int (length l1) \<ge> min_results then l1
                         else if use_coords \<and> int (length (l1 @ l2)) \<ge> min_results then l1 @ l2
                         else l1 @ l2 @ l3)))"
proof
  show "distinct (map bucket_id (fst (find_matching_buckets h3 s search_term lat lng min_results)))"
    by (simp add: find_matching_buckets_def Let_def case_prod_beta deduplicate_buckets_distinct)
next
  show "search_term \<noteq> [] \<longrightarrow>
       (let n = normalize_name search_term;
            l1 = fst (exact_name_match s n);
            use_coords = (lat \<noteq> None \<and> lng \<noteq> None \<and> validate_coords (the lat) (the lng));
            l2 = (if use_coords then fst (spatial_name_match h3 s n (the lat) (the lng)) else []);
            l3 = fst (fuzzy_name_match s n)
        in fst (find_matching_buckets h3 s search_term lat lng min_results) =
             first_seen (if int (length l1) \<ge> min_results then l1
                         else if use_coords \<and> int (length (l1 @ l2)) \<ge> min_results then l1 @ l2
                         else l1 @ l2 @ l3))"
    by (cases lat; cases lng)
       (simp_all add: find_matching_buckets_def Let_def case_prod_beta deduplicate_buckets_first_seen)
qed

text \<open>
  The query \<open>ajah\<close> on the store that holds the bucket \<open>ajah\<close>: the first layer and each
  of the three fuzzy methods return that bucket, and the result holds it once.
\<close>

theorem find_matching_buckets_deduplicated_witness:
  "''ajah'' \<noteq> []
   \<and> fst (find_matching_buckets one_cell_h3 ajah_store ''ajah'' None None 5)
       = first_seen [ajah_bucket, ajah_bucket, ajah_bucket, ajah_bucket]
   \<and> first_seen [ajah_bucket, ajah_bucket, ajah_bucket, ajah_bucket] = [ajah_bucket]"
proof -
  have n: "normalize_name ''ajah'' = ''ajah''" by code_simp
  have l1: "fst (exact_name_match ajah_store ''ajah'') = [ajah_bucket]" by code_simp
  have l3: "fst (fuzzy_name_match ajah_store ''ajah'') = [ajah_bucket, ajah_bucket, ajah_bucket]"
    by code_simp
  have fs: "first_seen [ajah_bucket, ajah_bucket, ajah_bucket, ajah_bucket] = [ajah_bucket]"
    by code_simp
  show ?thesis
    using find_matching_buckets_deduplicated [of one_cell_h3 ajah_store "''ajah''" None None 5]
    by (simp add: n l1 l3 fs)
qed

section \<open>The empty query\<close>

text \<open>
  Claim C9.  For the empty query string \<open>find_matching_buckets\<close> returns the empty list
  and sends no query to the database: no layer runs.
\<close>

theorem find_matching_buckets_empty_query:
  "find_matching_buckets h3 s [] lat lng min_results = ([], [])"
  by (simp add: find_matching_buckets_def)

section \<open>Similarity\<close>

text \<open>
  Against claim C6: both trigram sets of the empty string are empty and the two strings
  are equal, yet the similarity is 0, not 1.
\<close>

theorem calculate_similarity_empty_counterexample:
  "set (generate_trigrams '''') = {} \<and> calculate_similarity '''' '''' = 0
   \<and> calculate_similarity '''' '''' \<noteq> (if ('''' :: string) = '''' then 1 else 0)"
  by (simp add: calculate_similarity_def generate_trigrams_def)

text \<open>
  Claim C6, amended.  The similarity lies between 0 and 1.  When both trigram sets are
  non-empty it is the Jaccard index of the two sets.  When one of them is empty it is
  1 if both strings are non-empty and equal after lower-casing, and 0 otherwise.  The
  trigram set of a string is empty exactly when the string has fewer than 3 characters
  or its lower-cased form has fewer than 3 characters other than spaces.
\<close>

theorem calculate_similarity_range_jaccard:
  "0 \<le> calculate_similarity a b \<and> calculate_similarity a b \<le> 1
   \<and> calculate_similarity a b =
       (if set (generate_trigrams a) = {} \<or> set (generate_trigrams b) = {}
        then (if a \<noteq> [] \<and> b \<noteq> [] \<and> py_lower a = py_lower b then 1 else 0)
        else of_nat (card (set (generate_trigrams a) \<inter> set (generate_trigrams b)))
             / of_nat (card (set (generate_trigrams a) \<union> set (generate_trigrams b))))
   \<and> (set (generate_trigrams a) = {} \<longleftrightarrow>
          length a < 3 \<or> length (filter (\<lambda>c. c \<noteq> CHR '' '') (py_lower a)) < 3)"
proof -
  have empty_iff: "set (generate_trigrams a) = {} \<longleftrightarrow>
          length a < 3 \<or> length (filter (\<lambda>c. c \<noteq> CHR '' '') (py_lower a)) < 3"
    by (auto simp: generate_trigrams_def Let_def)
  let ?A = "set (generate_trigrams a)" and ?B = "set (generate_trigrams b)"
  have le: "card (?A \<inter> ?B) \<le> card (?A \<union> ?B)"
    by (rule card_mono) auto
  have pos: "?A \<noteq> {} \<Longrightarrow> 0 < card (?A \<union> ?B)"
    by (simp add: card_gt_0_iff)
  have ne: "?A \<noteq> {} \<Longrightarrow> a \<noteq> []" "?B \<noteq> {} \<Longrightarrow> b \<noteq> []"
    by (auto simp: generate_trigrams_def)
  have q: "(of_nat (card (?A \<inter> ?B)) :: rat) / of_nat (card (?A \<union> ?B)) \<le> 1"
    if "?A \<noteq> {}"
    using le pos [OF that] by (simp add: divide_le_eq_1)
  show ?thesis
  proof (cases "?A = {} \<or> ?B = {}")
    case True
    then have "0 \<le> calculate_similarity a b \<and> calculate_similarity a b \<le> 1
      \<and> calculate_similarity a b =
        (if a \<noteq> [] \<and> b \<noteq> [] \<and> py_lower a = py_lower b then 1 else 0)"
      by (auto simp: calculate_similarity_def Let_def)
    then show ?thesis using True empty_iff by simp
  next
    case False
    then have A: "?A \<noteq> {}" and B: "?B \<noteq> {}" by auto
    have val: "calculate_similarity a b =
        of_nat (card (?A \<inter> ?B)) / of_nat (card (?A \<union> ?B))"
      using A B ne pos [OF A] by (simp add: calculate_similarity_def Let_def)
    show ?thesis using val q [OF A] A B empty_iff by simp
  qed
qed

theorem calculate_similarity_range_jaccard_witness:
  "calculate_similarity ''sangotedo'' ''sangotdo'' = 4 / 9
   \<and> calculate_similarity ''AB'' ''ab'' = 1
   \<and> calculate_similarity ''a b'' ''a c'' = 0"
proof -
  have n1: "set (generate_trigrams ''sangotedo'') \<noteq> {}" "set (generate_trigrams ''sangotdo'') \<noteq> {}"
    by code_simp+
  have c1: "card (set (generate_trigrams ''sangotedo'') \<inter> set (generate_trigrams ''sangotdo'')) = 4"
    by code_simp
  have c2: "card (set (generate_trigrams ''sangotedo'') \<union> set (generate_trigrams ''sangotdo'')) = 9"
    by code_simp
  have t3: "generate_trigrams ''AB'' = []" "generate_trigrams ''ab'' = []"
       "generate_trigrams ''a b'' = []" "generate_trigrams ''a c'' = []"
    by code_simp+
  have l: "py_lower ''AB'' = ''ab''" "py_lower ''ab'' = ''ab''" "py_lower ''a b'' = ''a b''" "py_lower ''a c'' = ''a c''"
    by code_simp+
  have "calculate_similarity ''sangotedo'' ''sangotdo'' = 4 / 9"
    using calculate_similarity_range_jaccard [of "''sangotedo''" "''sangotdo''"]
    by (simp only: n1 c1 c2 simp_thms if_False)
  moreover have "calculate_similarity ''AB'' ''ab'' = 1"
    using calculate_similarity_range_jaccard [of "''AB''" "''ab''"]
    by (simp add: t3 l)
  moreover have "calculate_similarity ''a b'' ''a c'' = 0"
    using calculate_similarity_range_jaccard [of "''a b''" "''a c''"]
    by (simp add: t3 l)
  ultimately show ?thesis by simp
qed

section \<open>Bucket assignment: the steps of a call\<close>

lemma first_by_cell_None: "first_by_cell s c = None \<longleftrightarrow> (\<forall>b \<in> set (buckets s). h3_index b \<noteq> c)"
  by (auto simp: first_by_cell_def find_None_iff)

lemma first_by_cell_Some:
  "first_by_cell s c = Some b \<Longrightarrow> b \<in> set (buckets s) \<and> h3_index b = c"
  by (auto simp: first_by_cell_def find_Some_iff)

lemma find_map_cell:
  "(\<And>x. h3_index (f x) = h3_index x) \<Longrightarrow>
   find (\<lambda>b. h3_index b = c) (map f xs) = map_option f (find (\<lambda>b. h3_index b = c) xs)"
  by (induction xs) auto

lemma find_append_None: "find P xs = None \<Longrightarrow> find P (xs @ ys) = find P ys"
  by (induction xs) (auto split: if_splits)

lemma count_list_distinct: "distinct xs \<Longrightarrow> x \<in> set xs \<Longrightarrow> count_list xs x = 1"
  by (induction xs) auto

lemma same_id_same_row:
  "distinct (map bucket_id xs) \<Longrightarrow> x \<in> set xs \<Longrightarrow> y \<in> set xs \<Longrightarrow> bucket_id x = bucket_id y
   \<Longrightarrow> x = y"
  by (meson distinct_map inj_onD)

lemma alone_simps [simp]:
  "after_lookup alone s = s" "after_bucket_write alone s = s" "after_index_check alone s = s"
  by (simp_all add: alone_def)

lemma metaphone_simple_length: "length (metaphone_simple t) \<le> 10"
  by (simp add: metaphone_simple_def Let_def)

lemma generate_trigrams_length: "t \<in> set (generate_trigrams x) \<Longrightarrow> length t \<le> 3"
  by (cases "x = [] \<or> length x < 3") (auto simp: generate_trigrams_def Let_def)

text \<open>What a successful write of the index leaves behind.\<close>

lemma index_create_Inr:
  "index_create s e = Inr s' \<Longrightarrow>
   s' = s\<lparr>location_index := location_index s @ [e]\<rparr>
   \<and> length (li_original_name e) \<le> 255 \<and> length (li_normalized_name e) \<le> 255"
  by (auto simp: index_create_def split: if_splits)

lemma add_to_location_index_alone_Inr:
  assumes "add_to_location_index alone s b original nname = Inr s'"
  shows "buckets s' = buckets s" "next_id s' = next_id s"
    "\<exists>e \<in> set (location_index s'). li_original_name e = original \<and> li_bucket e = bucket_id b"
    "within_limits s \<Longrightarrow> within_limits s'"
  using assms
  by (auto simp: add_to_location_index_def Let_def within_limits_def
      dest!: index_create_Inr split: if_splits)

lemma add_to_location_index_alone_ok:
  assumes "length original \<le> 255" "length nname \<le> 255"
    "\<exists>r \<in> set (buckets s). bucket_id r = bucket_id b"
  shows "\<exists>s'. add_to_location_index alone s b original nname = Inr s'"
proof -
  have m: "\<not> length (metaphone_simple nname) > 50"
    using metaphone_simple_length [of nname] by simp
  have t: "\<not> (\<exists>t \<in> set (generate_trigrams nname). length t > 3)"
    using generate_trigrams_length [of _ nname] by fastforce
  show ?thesis
    using assms m t by (simp add: add_to_location_index_def Let_def index_create_def)
qed

lemma add_to_location_index_present:
  "\<exists>e \<in> set (location_index s). li_original_name e = original \<and> li_bucket e = bucket_id b \<Longrightarrow>
   add_to_location_index alone s b original nname = Inr s"
  by (simp add: add_to_location_index_def)

text \<open>A call that finds its bucket, with the name already listed and indexed, changes nothing.\<close>

lemma find_or_create_bucket_settled:
  assumes "first_by_cell s (calculate_h3_index h3 lat lng) = Some b"
    "name = [] \<or> name \<in> set (variant_names b)"
    "\<exists>e \<in> set (location_index s). li_original_name e = name \<and> li_bucket e = bucket_id b"
  shows "find_or_create_bucket h3 alone s lat lng name = Inr (b, s)"
  using assms
  by (auto simp: find_or_create_bucket_def add_variant_name_def add_to_location_index_present)

text \<open>The two ways in which a call run alone returns a bucket.\<close>

lemma find_or_create_bucket_alone_created:
  assumes "first_by_cell s (calculate_h3_index h3 lat lng) = None"
    "find_or_create_bucket h3 alone s lat lng name = Inr (b, s')"
  shows "b = \<lparr>bucket_id = next_id s, h3_index = calculate_h3_index h3 lat lng,
              centroid = (snd (h3_to_coordinates h3 (calculate_h3_index h3 lat lng)),
                          fst (h3_to_coordinates h3 (calculate_h3_index h3 lat lng))),
              normalized_name = normalize_name name,
              variant_names = (if name \<noteq> [] then [name] else []), property_count = 0\<rparr>"
    "buckets s' = buckets s @ [b]" "next_id s' = Suc (next_id s)"
    "\<exists>e \<in> set (location_index s'). li_original_name e = name \<and> li_bucket e = bucket_id b"
proof -
  let ?c = "calculate_h3_index h3 lat lng"
  let ?pt = "(snd (h3_to_coordinates h3 ?c), fst (h3_to_coordinates h3 ?c))"
  let ?vn = "if name \<noteq> [] then [name] else []"
  obtain b0 s0 where c: "objects_create s ?c ?pt (normalize_name name) ?vn = Inr (b0, s0)"
    and i: "add_to_location_index alone s0 b0 name (normalize_name name) = Inr s'" and bb: "b = b0"
    using assms
    by (auto simp: find_or_create_bucket_def Let_def case_prod_beta split: sum.splits)
  have b0: "b0 = \<lparr>bucket_id = next_id s, h3_index = ?c, centroid = ?pt,
              normalized_name = normalize_name name, variant_names = ?vn, property_count = 0\<rparr>"
    and s0: "s0 = s\<lparr>buckets := buckets s @ [b0], next_id := Suc (next_id s)\<rparr>"
    using c by (auto simp: objects_create_def Let_def split: if_splits)
  show "b = \<lparr>bucket_id = next_id s, h3_index = ?c, centroid = ?pt,
              normalized_name = normalize_name name, variant_names = ?vn, property_count = 0\<rparr>"
    using b0 bb by simp
  show "buckets s' = buckets s @ [b]" "next_id s' = Suc (next_id s)"
    using add_to_location_index_alone_Inr(1,2) [OF i] s0 bb by simp_all
  show "\<exists>e \<in> set (location_index s'). li_original_name e = name \<and> li_bucket e = bucket_id b"
    using add_to_location_index_alone_Inr(3) [OF i] bb by simp
qed

lemma find_or_create_bucket_alone_found:
  assumes "first_by_cell s (calculate_h3_index h3 lat lng) = Some bucket"
    "find_or_create_bucket h3 alone s lat lng name = Inr (b, s')"
  shows "next_id s' = next_id s"
    "\<exists>e \<in> set (location_index s'). li_original_name e = name \<and> li_bucket e = bucket_id b"
    "(name \<noteq> [] \<and> name \<notin> set (variant_names bucket)
        \<and> b = bucket\<lparr>variant_names := variant_names bucket @ [name]\<rparr>
        \<and> buckets s' = map (\<lambda>r. if bucket_id r = bucket_id bucket
                                  then r\<lparr>variant_names := variant_names bucket @ [name]\<rparr> else r)
                             (buckets s))
     \<or> ((name = [] \<or> name \<in> set (variant_names bucket)) \<and> b = bucket \<and> buckets s' = buckets s)"
proof -
  obtain b1 s1 where a: "add_variant_name s bucket name = Inr (b1, s1)"
    and i: "add_to_location_index alone s1 b1 name (normalize_name name) = Inr s'" and bb: "b = b1"
    using assms
    by (auto simp: find_or_create_bucket_def Let_def split: sum.splits)
  have a': "(name \<noteq> [] \<and> name \<notin> set (variant_names bucket)
        \<and> b1 = bucket\<lparr>variant_names := variant_names bucket @ [name]\<rparr>
        \<and> buckets s1 = map (\<lambda>r. if bucket_id r = bucket_id bucket
                                  then r\<lparr>variant_names := variant_names bucket @ [name]\<rparr> else r)
                             (buckets s)
        \<and> next_id s1 = next_id s)
     \<or> ((name = [] \<or> name \<in> set (variant_names bucket)) \<and> b1 = bucket \<and> s1 = s)"
    using a
    by (auto simp: add_variant_name_def save_variant_names_def Let_def split: if_splits sum.splits)
  show "next_id s' = next_id s"
    using add_to_location_index_alone_Inr(2) [OF i] a' by auto
  show "\<exists>e \<in> set (location_index s'). li_original_name e = name \<and> li_bucket e = bucket_id b"
    using add_to_location_index_alone_Inr(3) [OF i] bb by simp
  show "(name \<noteq> [] \<and> name \<notin> set (variant_names bucket)
        \<and> b = bucket\<lparr>variant_names := variant_names bucket @ [name]\<rparr>
        \<and> buckets s' = map (\<lambda>r. if bucket_id r = bucket_id bucket
                                  then r\<lparr>variant_names := variant_names bucket @ [name]\<rparr> else r)
                             (buckets s))
     \<or> ((name = [] \<or> name \<in> set (variant_names bucket)) \<and> b = bucket \<and> buckets s' = buckets s)"
    using add_to_location_index_alone_Inr(1) [OF i] a' bb by auto
qed

text \<open>
  Run alone on a store within the column limits, a call whose name, canonical name and
  cell fit their columns returns a bucket of the cell.
\<close>

lemma find_or_create_bucket_alone_succeeds:
  assumes lim: "within_limits s" and n: "length name \<le> 255"
    and nn: "length (normalize_name name) \<le> 255"
    and c: "length (calculate_h3_index h3 lat lng) \<le> 15"
  shows "\<exists>b s'. find_or_create_bucket h3 alone s lat lng name = Inr (b, s')
           \<and> h3_index b = calculate_h3_index h3 lat lng"
proof (cases "first_by_cell s (calculate_h3_index h3 lat lng)")
  case None
  let ?c = "calculate_h3_index h3 lat lng"
  let ?pt = "(snd (h3_to_coordinates h3 ?c), fst (h3_to_coordinates h3 ?c))"
  let ?vn = "if name \<noteq> [] then [name] else []"
  let ?b = "\<lparr>bucket_id = next_id s, h3_index = ?c, centroid = ?pt,
              normalized_name = normalize_name name, variant_names = ?vn, property_count = 0\<rparr>"
  let ?s0 = "s\<lparr>buckets := buckets s @ [?b], next_id := Suc (next_id s)\<rparr>"
  have nc: "\<not> (\<exists>x \<in> set (buckets s). h3_index x = ?c)"
    using None by (simp add: first_by_cell_None)
  have cr: "objects_create s ?c ?pt (normalize_name name) ?vn = Inr (?b, ?s0)"
    using nc n nn c by (simp add: objects_create_def Let_def)
  obtain s' where i: "add_to_location_index alone ?s0 ?b name (normalize_name name) = Inr s'"
    using add_to_location_index_alone_ok [OF n nn, of ?s0 ?b] by auto
  show ?thesis
    using None cr i by (simp add: find_or_create_bucket_def Let_def case_prod_beta)
next
  case (Some bucket)
  then have mem: "bucket \<in> set (buckets s)" and cell: "h3_index bucket = calculate_h3_index h3 lat lng"
    using first_by_cell_Some by blast+
  have vl: "\<forall>v \<in> set (variant_names bucket). length v \<le> 255"
    using lim mem by (auto simp: within_limits_def list_all_iff)
  obtain b1 s1 where a: "add_variant_name s bucket name = Inr (b1, s1)"
    and id: "bucket_id b1 = bucket_id bucket" and h: "h3_index b1 = h3_index bucket"
    and rows: "\<exists>r \<in> set (buckets s1). bucket_id r = bucket_id bucket"
  proof (cases "name \<noteq> [] \<and> name \<notin> set (variant_names bucket)")
    case True
    have "\<not> (\<exists>v \<in> set (variant_names bucket @ [name]). length v > 255)"
      using vl n by auto
    then have "add_variant_name s bucket name =
        Inr (bucket\<lparr>variant_names := variant_names bucket @ [name]\<rparr>,
             s\<lparr>buckets := map (\<lambda>r. if bucket_id r = bucket_id bucket
                                     then r\<lparr>variant_names := variant_names bucket @ [name]\<rparr> else r)
                                (buckets s)\<rparr>)"
      using True mem by (auto simp: add_variant_name_def save_variant_names_def Let_def)
    moreover have "\<exists>r \<in> set (map (\<lambda>r. if bucket_id r = bucket_id bucket
                                     then r\<lparr>variant_names := variant_names bucket @ [name]\<rparr> else r)
                                (buckets s)). bucket_id r = bucket_id bucket"
    proof -
      let ?f = "\<lambda>r. if bucket_id r = bucket_id bucket
                   then r\<lparr>variant_names := variant_names bucket @ [name]\<rparr> else r"
      have "?f bucket \<in> set (map ?f (buckets s))" using mem by (simp only: set_map) (rule imageI)
      moreover have "bucket_id (?f bucket) = bucket_id bucket" by simp
      ultimately show ?thesis by blast
    qed
    ultimately show ?thesis using that by simp
  next
    case False
    then have "add_variant_name s bucket name = Inr (bucket, s)"
      by (auto simp: add_variant_name_def)
    then show ?thesis using that mem by blast
  qed
  obtain s' where i: "add_to_location_index alone s1 b1 name (normalize_name name) = Inr s'"
    using add_to_location_index_alone_ok [OF n nn, of s1 b1] rows id by auto
  show ?thesis
    using Some a i h cell by (simp add: find_or_create_bucket_def Let_def)
qed


section \<open>Bucket assignment: coordinates and conflicts\<close>




text \<open>
  Against claim C2: a second call for the same cell commits between the lookup and the
  insert; the insert fails on the unique cell and the error is the result of the call.
\<close>

theorem find_or_create_bucket_conflict_counterexample:
  "find_or_create_bucket one_cell_h3 create_race empty_store (647 / 100) (363 / 100) ''Ajah''
     = Inl IntegrityError"
  by code_simp

text \<open>
  Claim C2, amended.  When the create of the bucket store fails with the conflict on the
  unique cell (the lookup found no bucket for the cell, and a bucket for it is in the
  store at the time of the insert), \<open>find_or_create_bucket\<close> does not recover: it does
  not fetch the existing bucket, and the integrity error is the result of the call.
\<close>

theorem find_or_create_bucket_conflict_surfaced:
  assumes "first_by_cell s (calculate_h3_index h3 lat lng) = None"
    and "\<exists>b \<in> set (buckets (after_lookup sched s)). h3_index b = calculate_h3_index h3 lat lng"
    and "length (calculate_h3_index h3 lat lng) \<le> 15"
    and "length (normalize_name name) \<le> 255" and "length name \<le> 255"
  shows "objects_create (after_lookup sched s) (calculate_h3_index h3 lat lng)
           (snd (h3_to_coordinates h3 (calculate_h3_index h3 lat lng)),
            fst (h3_to_coordinates h3 (calculate_h3_index h3 lat lng)))
           (normalize_name name) (if name \<noteq> [] then [name] else []) = Inl IntegrityError
         \<and> find_or_create_bucket h3 sched s lat lng name = Inl IntegrityError"
proof -
  have "objects_create (after_lookup sched s) (calculate_h3_index h3 lat lng)
           (snd (h3_to_coordinates h3 (calculate_h3_index h3 lat lng)),
            fst (h3_to_coordinates h3 (calculate_h3_index h3 lat lng)))
           (normalize_name name) (if name \<noteq> [] then [name] else []) = Inl IntegrityError"
    using assms(2-5) by (simp add: objects_create_def)
  then show ?thesis
    using assms(1) by (simp add: find_or_create_bucket_def Let_def case_prod_beta)
qed

text \<open>The two racing calls for \<open>Ajah\<close> on the empty store.\<close>

theorem find_or_create_bucket_conflict_surfaced_witness:
  "first_by_cell empty_store ''8958e1a2b3fffff'' = None
   \<and> buckets (after_lookup create_race empty_store) = [ajah_bucket]
   \<and> h3_index ajah_bucket = ''8958e1a2b3fffff''
   \<and> find_or_create_bucket one_cell_h3 create_race empty_store (647 / 100) (363 / 100) ''Ajah''
       = Inl IntegrityError"
proof -
  have c: "calculate_h3_index one_cell_h3 (647 / 100) (363 / 100) = ''8958e1a2b3fffff''"
    by (simp add: calculate_h3_index_def one_cell_h3_def)
  have a: "first_by_cell empty_store ''8958e1a2b3fffff'' = None"
    by (simp add: first_by_cell_def empty_store_def)
  have b: "buckets (after_lookup create_race empty_store) = [ajah_bucket]"
    by code_simp
  have h: "h3_index ajah_bucket = ''8958e1a2b3fffff''"
    by (simp add: ajah_bucket_def)
  have n: "normalize_name ''Ajah'' = ''ajah''" by code_simp
  have "find_or_create_bucket one_cell_h3 create_race empty_store (647 / 100) (363 / 100) ''Ajah''
       = Inl IntegrityError"
    using find_or_create_bucket_conflict_surfaced
            [of empty_store one_cell_h3 "647 / 100" "363 / 100" create_race "''Ajah''"]
    by (simp add: a b c h n)
  then show ?thesis using a b h by simp
qed

section \<open>Bucket assignment: variant names\<close>

text \<open>
  Against claim C7: the bucket created for the empty name has no variant name.
\<close>

theorem created_without_variant_counterexample:
  "find_or_create_bucket one_cell_h3 alone empty_store (647 / 100) (363 / 100) ''''
     = Inr (unnamed_bucket, unnamed_store)
   \<and> buckets unnamed_store = [unnamed_bucket]
   \<and> variant_names unnamed_bucket = []"
  by code_simp

lemma find_or_create_bucket_created_variants:
  assumes "first_by_cell s (calculate_h3_index h3 lat lng) = None"
    and "find_or_create_bucket h3 sched s lat lng name = Inr (b, s')"
  shows "variant_names b = (if name \<noteq> [] then [name] else [])"
  using assms
  by (auto simp: find_or_create_bucket_def objects_create_def Let_def case_prod_beta
      split: sum.splits if_splits)

lemma find_or_create_bucket_found_variants:
  assumes "first_by_cell s (calculate_h3_index h3 lat lng) = Some bucket"
    and "find_or_create_bucket h3 sched s lat lng name = Inr (b, s')"
  shows "name \<noteq> [] \<longrightarrow> name \<in> set (variant_names b)"
  using assms
  by (auto simp: find_or_create_bucket_def add_variant_name_def Let_def
      split: sum.splits if_splits)

text \<open>
  Claim C7, amended.  A bucket created by \<open>find_or_create_bucket\<close> starts with the one
  variant name it was given when that name is non-empty, and with no variant name when
  it is empty.  The bucket returned for a non-empty name has a non-empty list.  A
  successful call that runs alone removes no variant name: every bucket of the store
  keeps its identity and its list only grows at the end, so a non-empty list stays
  non-empty.
\<close>

theorem variant_names_created_and_kept:
  assumes res: "find_or_create_bucket h3 sched s lat lng name = Inr (b, s')"
  shows "(first_by_cell s (calculate_h3_index h3 lat lng) = None \<longrightarrow>
            variant_names b = (if name \<noteq> [] then [name] else []))
         \<and> (name \<noteq> [] \<longrightarrow> variant_names b \<noteq> [])
         \<and> (sched = alone \<and> wf_store s \<longrightarrow>
              (\<forall>old \<in> set (buckets s). \<exists>new \<in> set (buckets s').
                 bucket_id new = bucket_id old \<and> prefix (variant_names old) (variant_names new))
              \<and> wf_store s')"
proof (intro conjI impI)
  assume "first_by_cell s (calculate_h3_index h3 lat lng) = None"
  then show "variant_names b = (if name \<noteq> [] then [name] else [])"
    using res by (rule find_or_create_bucket_created_variants)
next
  assume ne: "name \<noteq> []"
  show "variant_names b \<noteq> []"
  proof (cases "first_by_cell s (calculate_h3_index h3 lat lng)")
    case None
    then show ?thesis using find_or_create_bucket_created_variants [OF None res] ne by simp
  next
    case (Some bucket)
    then show ?thesis using find_or_create_bucket_found_variants [OF Some res] ne by auto
  qed
next
  assume a: "sched = alone \<and> wf_store s"
  then have res': "find_or_create_bucket h3 alone s lat lng name = Inr (b, s')"
    and wf: "wf_store s" using res by simp_all
  have "(\<forall>old \<in> set (buckets s). \<exists>new \<in> set (buckets s').
                 bucket_id new = bucket_id old \<and> prefix (variant_names old) (variant_names new))
        \<and> wf_store s'"
  proof (cases "first_by_cell s (calculate_h3_index h3 lat lng)")
    case None
    note f = find_or_create_bucket_alone_created [OF None res']
    have "bucket_id b = next_id s" using f(1) by simp
    then have "wf_store s'"
      using wf f(2,3) by (auto simp: wf_store_def list_all_iff)
    moreover have "\<forall>old \<in> set (buckets s). \<exists>new \<in> set (buckets s').
               bucket_id new = bucket_id old \<and> prefix (variant_names old) (variant_names new)"
      using f(2) by auto
    ultimately show ?thesis by simp
  next
    case (Some bucket)
    then have mem: "bucket \<in> set (buckets s)"
      using first_by_cell_Some by blast
    note f = find_or_create_bucket_alone_found [OF Some res']
    show ?thesis
    proof (cases "name \<noteq> [] \<and> name \<notin> set (variant_names bucket)")
      case True
      let ?f = "\<lambda>r. if bucket_id r = bucket_id bucket
                   then r\<lparr>variant_names := variant_names bucket @ [name]\<rparr> else r"
      have s': "buckets s' = map ?f (buckets s)" using f(3) True by auto
      have comp: "bucket_id \<circ> ?f = bucket_id" by (rule ext) simp
      have "wf_store s'"
        using wf f(1) by (auto simp: wf_store_def list_all_iff s' comp)
      moreover have "\<exists>new \<in> set (buckets s').
               bucket_id new = bucket_id old \<and> prefix (variant_names old) (variant_names new)"
        if old: "old \<in> set (buckets s)" for old
      proof (cases "bucket_id old = bucket_id bucket")
        case t: True
        then have "old = bucket"
          using wf old mem same_id_same_row by (auto simp: wf_store_def)
        then show ?thesis
          using old unfolding s'
          by (intro bexI [of _ "old\<lparr>variant_names := variant_names bucket @ [name]\<rparr>"]) auto
      next
        case False
        then show ?thesis using old unfolding s' by (intro bexI [of _ old]) auto
      qed
      ultimately show ?thesis by blast
    next
      case False
      then have s': "buckets s' = buckets s" using f(3) by auto
      have "wf_store s'" using wf s' f(1) by (simp add: wf_store_def)
      then show ?thesis using s' by auto
    qed
  qed
  then show "\<forall>old \<in> set (buckets s). \<exists>new \<in> set (buckets s').
                 bucket_id new = bucket_id old \<and> prefix (variant_names old) (variant_names new)"
    and "wf_store s'" by simp_all
qed

text \<open>The name \<open>Ajah, Lagos\<close> for the cell of the bucket \<open>ajah\<close>, run alone.\<close>

theorem variant_names_created_and_kept_witness:
  "wf_store ajah_store
   \<and> find_or_create_bucket one_cell_h3 alone ajah_store (647 / 100) (363 / 100) ''Ajah, Lagos''
       = Inr (ajah_bucket\<lparr>variant_names := [''Ajah'', ''Ajah, Lagos'']\<rparr>,
              ajah_store\<lparr>buckets := [ajah_bucket\<lparr>variant_names := [''Ajah'', ''Ajah, Lagos'']\<rparr>],
                location_index := location_index ajah_store @
                  [\<lparr>li_original_name = ''Ajah, Lagos'', li_normalized_name = ''ajah'',
                    li_bucket = 1, li_metaphone = ''AJH'', li_trigrams = [''aja'', ''jah'']\<rparr>]\<rparr>)
   \<and> wf_store (ajah_store\<lparr>buckets := [ajah_bucket\<lparr>variant_names := [''Ajah'', ''Ajah, Lagos'']\<rparr>],
                location_index := location_index ajah_store @
                  [\<lparr>li_original_name = ''Ajah, Lagos'', li_normalized_name = ''ajah'',
                    li_bucket = 1, li_metaphone = ''AJH'', li_trigrams = [''aja'', ''jah'']\<rparr>]\<rparr>)"
proof -
  have wf: "wf_store ajah_store" by code_simp
  have res: "find_or_create_bucket one_cell_h3 alone ajah_store (647 / 100) (363 / 100) ''Ajah, Lagos''
       = Inr (ajah_bucket\<lparr>variant_names := [''Ajah'', ''Ajah, Lagos'']\<rparr>,
              ajah_store\<lparr>buckets := [ajah_bucket\<lparr>variant_names := [''Ajah'', ''Ajah, Lagos'']\<rparr>],
                location_index := location_index ajah_store @
                  [\<lparr>li_original_name = ''Ajah, Lagos'', li_normalized_name = ''ajah'',
                    li_bucket = 1, li_metaphone = ''AJH'', li_trigrams = [''aja'', ''jah'']\<rparr>]\<rparr>)"
    by code_simp
  show ?thesis
    using variant_names_created_and_kept [OF res] wf res by simp
qed

text \<open>
  Why the call has to run alone: here a second call adds \<open>Ajah, Lagos\<close> to the bucket
  after the first has read it; the first then saves its own array, and the variant of
  the second is gone.
\<close>

lemma stale_save_drops_concurrent_variant:
  "map variant_names (buckets (after_lookup variant_race ajah_store)) = [[''Ajah'', ''Ajah, Lagos'']]
   \<and> (case find_or_create_bucket one_cell_h3 variant_race ajah_store (647 / 100) (363 / 100) ''Ajah Town'' of
         Inl e \<Rightarrow> False
       | Inr (b, s') \<Rightarrow> map variant_names (buckets s') = [[''Ajah'', ''Ajah Town'']])"
  by code_simp

section \<open>Bucket assignment: repeated calls\<close>

text \<open>
  Against claim C5: two calls with the empty name return the same bucket, and the empty
  name is not among its variant names.
\<close>

theorem repeated_empty_name_counterexample:
  "find_or_create_bucket one_cell_h3 alone empty_store (647 / 100) (363 / 100) ''''
     = Inr (unnamed_bucket, unnamed_store)
   \<and> find_or_create_bucket one_cell_h3 alone unnamed_store (647 / 100) (363 / 100) ''''
     = Inr (unnamed_bucket, unnamed_store)
   \<and> count_list (variant_names unnamed_bucket) '''' = 0"
  by code_simp

text \<open>
  Claim C5, amended.  Two calls of \<open>find_or_create_bucket\<close> with the same arguments,
  each run alone: whenever the first returns a bucket, the second returns the same
  bucket and changes nothing in the store.  (The first returns a bucket when the store
  is within the column limits and the name, the canonical name and the cell fit their
  columns.)  When the name is non-empty and no bucket of the store lists a variant name
  twice, the name is exactly once among the variant names of that bucket, and again no
  bucket lists a variant name twice.  The empty name is never added: a call with the
  empty name returns the bucket with the variant names it had (none when the bucket is
  new), and a store in which no bucket lists the empty name stays so under every call.
\<close>

theorem find_or_create_bucket_idempotent:
  "(within_limits s \<and> length name \<le> 255 \<and> length (normalize_name name) \<le> 255
      \<and> length (calculate_h3_index h3 lat lng) \<le> 15 \<longrightarrow>
      (\<exists>b s1. find_or_create_bucket h3 alone s lat lng name = Inr (b, s1)))
   \<and> (\<forall>b s1. find_or_create_bucket h3 alone s lat lng name = Inr (b, s1) \<longrightarrow>
         find_or_create_bucket h3 alone s1 lat lng name = Inr (b, s1)
         \<and> first_by_cell s1 (calculate_h3_index h3 lat lng) = Some b
         \<and> (name \<noteq> [] \<and> variants_distinct s \<longrightarrow>
              count_list (variant_names b) name = 1 \<and> variants_distinct s1)
         \<and> (name = [] \<longrightarrow>
              variant_names b = (case first_by_cell s (calculate_h3_index h3 lat lng) of
                                   None \<Rightarrow> [] | Some old \<Rightarrow> variant_names old))
         \<and> (no_empty_variant s \<longrightarrow> [] \<notin> set (variant_names b) \<and> no_empty_variant s1))"
proof (intro conjI allI impI)
  assume "within_limits s \<and> length name \<le> 255 \<and> length (normalize_name name) \<le> 255
      \<and> length (calculate_h3_index h3 lat lng) \<le> 15"
  then show "\<exists>b s1. find_or_create_bucket h3 alone s lat lng name = Inr (b, s1)"
    using find_or_create_bucket_alone_succeeds [of s name h3 lat lng] by blast
next
  fix b s1
  assume res: "find_or_create_bucket h3 alone s lat lng name = Inr (b, s1)"
  let ?c = "calculate_h3_index h3 lat lng"
  have main: "first_by_cell s1 ?c = Some b
      \<and> (name = [] \<or> name \<in> set (variant_names b))
      \<and> (\<exists>e \<in> set (location_index s1). li_original_name e = name \<and> li_bucket e = bucket_id b)
      \<and> (name \<noteq> [] \<and> variants_distinct s \<longrightarrow>
              count_list (variant_names b) name = 1 \<and> variants_distinct s1)
      \<and> (name = [] \<longrightarrow> variant_names b = (case first_by_cell s ?c of
                                   None \<Rightarrow> [] | Some old \<Rightarrow> variant_names old))
      \<and> (no_empty_variant s \<longrightarrow> [] \<notin> set (variant_names b) \<and> no_empty_variant s1)"
  proof (cases "first_by_cell s ?c")
    case None
    note f = find_or_create_bucket_alone_created [OF None res]
    have hb: "h3_index b = ?c" and vb: "variant_names b = (if name \<noteq> [] then [name] else [])"
      using f(1) by simp_all
    have f0: "first_by_cell s1 ?c = Some b"
      using None hb by (simp add: first_by_cell_def f(2) find_append_None)
    have vd: "variants_distinct s1" if "variants_distinct s"
      using that vb by (simp add: variants_distinct_def f(2))
    have nev: "no_empty_variant s1" if "no_empty_variant s"
      using that vb by (simp add: no_empty_variant_def f(2))
    show ?thesis
      using f0 f(4) vb vd nev None by auto
  next
    case (Some bucket)
    then have mem: "bucket \<in> set (buckets s)"
      using first_by_cell_Some by blast
    note f = find_or_create_bucket_alone_found [OF Some res]
    show ?thesis
    proof (cases "name \<noteq> [] \<and> name \<notin> set (variant_names bucket)")
      case True
      let ?f = "\<lambda>r. if bucket_id r = bucket_id bucket
                   then r\<lparr>variant_names := variant_names bucket @ [name]\<rparr> else r"
      have b: "b = bucket\<lparr>variant_names := variant_names bucket @ [name]\<rparr>"
        and s1: "buckets s1 = map ?f (buckets s)"
        using f(3) True by auto
      have f0: "first_by_cell s1 ?c = Some b"
        using Some by (simp add: first_by_cell_def s1 find_map_cell b)
      have vd: "variants_distinct s1" if "variants_distinct s"
        using that True mem
        by (auto simp: variants_distinct_def s1 list_all_iff)
      have cnt: "variants_distinct s \<Longrightarrow> count_list (variant_names b) name = 1"
        using True by (simp add: b count_list_0_iff)
      have nev: "[] \<notin> set (variant_names b) \<and> no_empty_variant s1" if "no_empty_variant s"
        using that True mem
        by (auto simp: no_empty_variant_def s1 b list_all_iff)
      show ?thesis
        using f0 f(2) vd cnt nev True b Some by auto
    next
      case False
      then have b: "b = bucket" and s1: "buckets s1 = buckets s"
        using f(3) by auto
      have f0: "first_by_cell s1 ?c = Some b"
        using Some by (simp add: first_by_cell_def s1 b)
      have vd: "variants_distinct s1" if "variants_distinct s"
        using that by (simp add: variants_distinct_def s1)
      have cnt: "name \<noteq> [] \<Longrightarrow> variants_distinct s \<Longrightarrow> count_list (variant_names b) name = 1"
        using False mem
        by (auto simp: variants_distinct_def list_all_iff count_list_distinct b)
      have nev: "[] \<notin> set (variant_names b) \<and> no_empty_variant s1" if "no_empty_variant s"
        using that mem by (auto simp: no_empty_variant_def s1 b list_all_iff)
      show ?thesis
        using f0 f(2) vd cnt nev False b Some by auto
    qed
  qed
  then have settled: "find_or_create_bucket h3 alone s1 lat lng name = Inr (b, s1)"
    by (intro find_or_create_bucket_settled) blast+
  show "find_or_create_bucket h3 alone s1 lat lng name = Inr (b, s1)"
    by (rule settled)
  show "first_by_cell s1 ?c = Some b" using main by blast
  show "count_list (variant_names b) name = 1" if "name \<noteq> [] \<and> variants_distinct s"
    using main that by blast
  show "variants_distinct s1" if "name \<noteq> [] \<and> variants_distinct s"
    using main that by blast
  show "variant_names b = (case first_by_cell s ?c of None \<Rightarrow> [] | Some old \<Rightarrow> variant_names old)"
    if "name = []"
    using main that by blast
  show "[] \<notin> set (variant_names b)" if "no_empty_variant s"
    using main that by blast
  show "no_empty_variant s1" if "no_empty_variant s"
    using main that by blast
qed

text \<open>The two calls on the empty store with the name \<open>Ajah\<close>.\<close>

theorem find_or_create_bucket_idempotent_witness:
  "within_limits empty_store \<and> variants_distinct empty_store \<and> no_empty_variant empty_store
   \<and> find_or_create_bucket one_cell_h3 alone empty_store (647 / 100) (363 / 100) ''Ajah''
       = Inr (ajah_bucket, ajah_store)
   \<and> find_or_create_bucket one_cell_h3 alone ajah_store (647 / 100) (363 / 100) ''Ajah''
       = Inr (ajah_bucket, ajah_store)
   \<and> count_list (variant_names ajah_bucket) ''Ajah'' = 1 \<and> variants_distinct ajah_store
   \<and> no_empty_variant ajah_store"
proof -
  have inv: "within_limits empty_store" "variants_distinct empty_store" "no_empty_variant empty_store"
    by code_simp+
  have first: "find_or_create_bucket one_cell_h3 alone empty_store (647 / 100) (363 / 100) ''Ajah''
       = Inr (ajah_bucket, ajah_store)" by code_simp
  have ne: "''Ajah'' \<noteq> []" by simp
  note t = find_or_create_bucket_idempotent
             [of empty_store "''Ajah''" one_cell_h3 "647 / 100" "363 / 100"]
  from t first have
    "find_or_create_bucket one_cell_h3 alone ajah_store (647 / 100) (363 / 100) ''Ajah''
       = Inr (ajah_bucket, ajah_store)
     \<and> (''Ajah'' \<noteq> [] \<and> variants_distinct empty_store \<longrightarrow>
          count_list (variant_names ajah_bucket) ''Ajah'' = 1 \<and> variants_distinct ajah_store)
     \<and> (no_empty_variant empty_store \<longrightarrow>
          [] \<notin> set (variant_names ajah_bucket) \<and> no_empty_variant ajah_store)"
    by blast
  then show ?thesis using inv first ne by blast
qed

section \<open>Queries whose normalised form is empty\<close>

lemma levenshtein_matches_empty:
  "levenshtein_matches s [] = (filter (\<lambda>b. length (normalized_name b) \<le> 2) (buckets s), [Q_buckets_all])"
  by (simp add: levenshtein_matches_def MAX_LEVENSHTEIN_DISTANCE_def)

lemma trigram_matches_empty: "trigram_matches s [] = ([], [Q_index_icontains []])"
  by (simp add: trigram_matches_def calculate_similarity_def ACCEPTABLE_MATCH_THRESHOLD_def)

lemma metaphone_matches_empty: "metaphone_matches s [] = ([], [])"
  by (simp add: metaphone_matches_def metaphone_simple_def)

lemma fuzzy_name_match_empty:
  "fuzzy_name_match s [] =
     (filter (\<lambda>b. length (normalized_name b) \<le> 2) (buckets s), [Q_buckets_all, Q_index_icontains []])"
  by (simp add: fuzzy_name_match_def levenshtein_matches_empty trigram_matches_empty
      metaphone_matches_empty)

text \<open>
  Against claim C10: the query \<open>!!!\<close> is non-empty and its normal form is empty, and the
  bucket \<open>vi\<close> has a canonical name of length 2.  With five buckets of empty canonical
  name in the store, the first layer returns five buckets and the call returns them
  without running the third layer; with \<open>min_results = 0\<close> the call returns after the
  first layer on any store.  The bucket \<open>vi\<close> is not returned, and the store is never
  asked for all its buckets.
\<close>

theorem layer_three_not_reached_counterexample:
  "''!!!'' \<noteq> [] \<and> normalize_name ''!!!'' = []
   \<and> map normalized_name (buckets crowded_store) = ['''', '''', '''', '''', '''', ''vi'']
   \<and> map bucket_id (buckets crowded_store) = [1, 2, 3, 4, 5, 6]
   \<and> map bucket_id (fst (find_matching_buckets one_cell_h3 crowded_store ''!!!'' None None 5))
       = [1, 2, 3, 4, 5]
   \<and> snd (find_matching_buckets one_cell_h3 crowded_store ''!!!'' None None 5) = [Q_buckets_iexact []]
   \<and> buckets vi_store = [vi_bucket] \<and> normalized_name vi_bucket = ''vi''
   \<and> find_matching_buckets one_cell_h3 vi_store ''!!!'' None None 0 = ([], [Q_buckets_iexact []])"
  by code_simp

text \<open>
  Claim C10, amended.  For a non-empty query whose normalised form is empty,
  \<open>find_matching_buckets\<close> does not return at its guard: it queries the store, first
  for the empty canonical name.  On the empty normalised query the Levenshtein method of
  the third layer returns every bucket whose canonical name has length at most 2, the
  trigram method returns no bucket (the similarity against the empty string is 0) and
  the phonetic method is skipped (the phonetic code is empty, no query is sent).  The
  third layer runs when fewer than \<open>min_results\<close> buckets were accumulated by the layers
  before it; the result is then the deduplicated list of the earlier layers followed by
  those buckets.
\<close>

theorem empty_normalized_query_cascade:
  assumes "search_term \<noteq> []" and "normalize_name search_term = []"
  shows "(let l1 = fst (exact_name_match s []);
              use_coords = (lat \<noteq> None \<and> lng \<noteq> None \<and> validate_coords (the lat) (the lng));
              l2 = (if use_coords then fst (spatial_name_match h3 s [] (the lat) (the lng)) else []);
              short = filter (\<lambda>b. length (normalized_name b) \<le> 2) (buckets s)
          in hd (snd (find_matching_buckets h3 s search_term lat lng min_results)) = Q_buckets_iexact []
             \<and> snd (find_matching_buckets h3 s search_term lat lng min_results) \<noteq> []
             \<and> levenshtein_matches s [] = (short, [Q_buckets_all])
             \<and> calculate_similarity [] other = 0
             \<and> fst (trigram_matches s []) = []
             \<and> metaphone_simple [] = []
             \<and> metaphone_matches s [] = ([], [])
             \<and> (int (length l1) < min_results \<and> (use_coords \<longrightarrow> int (length (l1 @ l2)) < min_results) \<longrightarrow>
                  fst (find_matching_buckets h3 s search_term lat lng min_results)
                    = deduplicate_buckets (l1 @ l2 @ short)
                  \<and> snd (find_matching_buckets h3 s search_term lat lng min_results)
                    = Q_buckets_iexact []
                        # (if use_coords then snd (spatial_name_match h3 s [] (the lat) (the lng)) else [])
                        @ [Q_buckets_all, Q_index_icontains []]))"
proof -
  have a: "hd (snd (find_matching_buckets h3 s search_term lat lng min_results)) = Q_buckets_iexact []"
    "snd (find_matching_buckets h3 s search_term lat lng min_results) \<noteq> []"
    using assms
    by (simp_all add: find_matching_buckets_def Let_def case_prod_beta exact_name_match_def)
  have b: "calculate_similarity [] other = 0" "metaphone_simple [] = []"
    by (simp_all add: calculate_similarity_def metaphone_simple_def)
  have c: "fst (find_matching_buckets h3 s search_term lat lng min_results)
             = deduplicate_buckets (fst (exact_name_match s []) @
                 (if lat \<noteq> None \<and> lng \<noteq> None \<and> validate_coords (the lat) (the lng)
                  then fst (spatial_name_match h3 s [] (the lat) (the lng)) else []) @
                 filter (\<lambda>b. length (normalized_name b) \<le> 2) (buckets s))
           \<and> snd (find_matching_buckets h3 s search_term lat lng min_results)
                    = Q_buckets_iexact []
                        # (if lat \<noteq> None \<and> lng \<noteq> None \<and> validate_coords (the lat) (the lng)
                           then snd (spatial_name_match h3 s [] (the lat) (the lng)) else [])
                        @ [Q_buckets_all, Q_index_icontains []]"
    if "int (length (fst (exact_name_match s []))) < min_results"
      "lat \<noteq> None \<and> lng \<noteq> None \<and> validate_coords (the lat) (the lng) \<longrightarrow>
        int (length (fst (exact_name_match s []) @ fst (spatial_name_match h3 s [] (the lat) (the lng)))) < min_results"
    using assms that
    by (cases lat; cases lng)
       (auto simp: find_matching_buckets_def Let_def case_prod_beta fuzzy_name_match_empty
          exact_name_match_def)
  show ?thesis
    unfolding Let_def
    using a b c by (simp add: levenshtein_matches_empty trigram_matches_empty metaphone_matches_empty)
qed

text \<open>The query \<open>!!!\<close> on the store that holds the bucket \<open>vi\<close>.\<close>

theorem empty_normalized_query_cascade_witness:
  "''!!!'' \<noteq> [] \<and> normalize_name ''!!!'' = []
   \<and> find_matching_buckets one_cell_h3 vi_store ''!!!'' None None 5
       = ([vi_bucket], [Q_buckets_iexact [], Q_buckets_all, Q_index_icontains []])"
proof -
  have n: "normalize_name ''!!!'' = []" by code_simp
  have ne: "''!!!'' \<noteq> []" by simp
  have l1: "fst (exact_name_match vi_store []) = []" by code_simp
  have sh: "filter (\<lambda>b. length (normalized_name b) \<le> 2) (buckets vi_store) = [vi_bucket]"
    by code_simp
  have d: "deduplicate_buckets [vi_bucket] = [vi_bucket]" by code_simp
  show ?thesis
    using empty_normalized_query_cascade [OF ne n, of vi_store None None one_cell_h3 5 "[]"]
    by (simp add: Let_def l1 sh d n prod_eq_iff)
qed

section \<open>The normaliser on words\<close>

lemma alnum_not_space: "is_lower_alnum c \<Longrightarrow> \<not> is_space c"
  by (auto simp: is_lower_alnum_def is_space_def Let_def)

lemma is_space_blank [simp]: "is_space (CHR '' '')"
  by (simp add: is_space_def)

lemma alnum_not_blank: "is_lower_alnum c \<Longrightarrow> c \<noteq> CHR '' ''"
  using alnum_not_space by fastforce

lemma lower_char_alnum: "is_lower_alnum c \<Longrightarrow> lower_char c = c"
  by (auto simp: is_lower_alnum_def lower_char_def Let_def)

lemma lower_char_blank [simp]: "lower_char (CHR '' '') = CHR '' ''"
  by (simp add: lower_char_def)

lemma py_join_spaced: "py_join '' '' (w # ws) = w @ spaced ws"
  by (induction ws arbitrary: w) (simp_all add: spaced_def)

lemma spaced_Cons: "spaced (w # ws) = CHR '' '' # w @ spaced ws"
  by (simp add: spaced_def)

lemma spaced_Nil [simp]: "spaced [] = []"
  by (simp add: spaced_def)

lemma split_acc_word:
  "\<forall>c \<in> set w. \<not> is_space c \<Longrightarrow> split_acc u (w @ rest) = split_acc (u @ w) rest"
  by (induction w arbitrary: u) simp_all

lemma is_word_no_space: "is_word w \<Longrightarrow> \<forall>c \<in> set w. \<not> is_space c"
  by (auto simp: is_word_def list_all_iff alnum_not_space)

lemma is_word_no_blank: "is_word w \<Longrightarrow> \<forall>c \<in> set w. c \<noteq> CHR '' ''"
  by (auto simp: is_word_def list_all_iff alnum_not_blank)

lemma split_acc_spaced:
  "u \<noteq> [] \<Longrightarrow> \<forall>w \<in> set ws. is_word w \<Longrightarrow> split_acc u (spaced ws) = u # ws"
proof (induction ws arbitrary: u)
  case Nil
  then show ?case by simp
next
  case (Cons w ws)
  have w: "is_word w" using Cons.prems by simp
  then have "w \<noteq> []" by (simp add: is_word_def)
  then show ?case
    using Cons w by (simp add: spaced_Cons split_acc_word [OF is_word_no_space, of w "[]", simplified])
qed

lemma py_split_tidy:
  "is_word w \<Longrightarrow> \<forall>v \<in> set ws. is_word v \<Longrightarrow> py_split (w @ spaced ws) = w # ws"
  using split_acc_word [OF is_word_no_space, of w "[]" "spaced ws"]
  by (simp add: py_split_def split_acc_spaced is_word_def)

lemma split_acc_chars:
  "v \<in> set (split_acc u s) \<Longrightarrow> v \<noteq> [] \<and> set v \<subseteq> set u \<union> {c \<in> set s. \<not> is_space c}"
proof (induction s arbitrary: u)
  case Nil
  then show ?case by (auto split: if_splits)
next
  case (Cons c s)
  show ?case
  proof (cases "is_space c")
    case True
    then show ?thesis using Cons.prems Cons.IH [of "[]"] by (auto split: if_splits)
  next
    case False
    then show ?thesis using Cons.prems Cons.IH [of "u @ [c]"] by auto
  qed
qed

lemma split_acc_Nil_iff: "split_acc u s = [] \<longleftrightarrow> u = [] \<and> (\<forall>c \<in> set s. is_space c)"
  by (induction s arbitrary: u) auto

lemma collapse_ws_chars:
  "set (collapse_ws f s) \<subseteq> insert (CHR '' '') {c \<in> set s. \<not> is_space c}"
  by (induction s arbitrary: f) auto

lemma collapse_ws_keeps: "c \<in> set s \<Longrightarrow> \<not> is_space c \<Longrightarrow> c \<in> set (collapse_ws f s)"
  by (induction s arbitrary: f) auto

lemma collapse_ws_word:
  "w \<noteq> [] \<Longrightarrow> \<forall>c \<in> set w. \<not> is_space c \<Longrightarrow> collapse_ws f (w @ rest) = w @ collapse_ws False rest"
proof (induction w arbitrary: f)
  case Nil
  then show ?case by simp
next
  case (Cons c w)
  then show ?case by (cases w) auto
qed

lemma collapse_ws_spaced:
  "\<forall>w \<in> set ws. is_word w \<Longrightarrow> collapse_ws False (spaced ws) = spaced ws"
proof (induction ws)
  case Nil
  then show ?case by simp
next
  case (Cons w ws)
  then have w: "w \<noteq> []" "\<forall>c \<in> set w. \<not> is_space c"
    by (auto simp: is_word_def list_all_iff alnum_not_space)
  show ?case using Cons by (simp add: spaced_Cons collapse_ws_word [OF w])
qed

lemma collapse_ws_tidy:
  "is_word w \<Longrightarrow> \<forall>v \<in> set ws. is_word v \<Longrightarrow> collapse_ws False (w @ spaced ws) = w @ spaced ws"
  using collapse_ws_word [of w False "spaced ws"] is_word_no_space [of w]
  by (simp add: is_word_def collapse_ws_spaced)

lemma dropWhile_keeps: "c \<in> set s \<Longrightarrow> \<not> P c \<Longrightarrow> c \<in> set (dropWhile P s)"
  by (induction s) auto

lemma py_strip_keeps: "c \<in> set s \<Longrightarrow> \<not> is_space c \<Longrightarrow> c \<in> set (py_strip s)"
  by (simp add: py_strip_def dropWhile_keeps)

lemma py_strip_subset: "set (py_strip s) \<subseteq> set s"
  by (auto simp: py_strip_def dest!: set_dropWhileD)

lemma py_strip_edges:
  "s \<noteq> [] \<Longrightarrow> \<not> is_space (hd s) \<Longrightarrow> \<not> is_space (last s) \<Longrightarrow> py_strip s = s"
proof -
  assume s: "s \<noteq> []" and h: "\<not> is_space (hd s)" and l: "\<not> is_space (last s)"
  have 1: "dropWhile is_space s = s" using s h by (cases s) auto
  have 2: "dropWhile is_space (rev s) = rev s" using s l by (cases s rule: rev_cases) auto
  show ?thesis by (simp add: py_strip_def 1 2)
qed

lemma tidy_edges:
  "is_word w \<Longrightarrow> \<forall>v \<in> set ws. is_word v \<Longrightarrow>
   \<not> is_space (hd (w @ spaced ws)) \<and> \<not> is_space (last (w @ spaced ws))"
proof (induction ws arbitrary: w)
  case Nil
  then show ?case
    by (auto simp: is_word_def list_all_iff alnum_not_space)
next
  case (Cons v vs)
  have vne: "v \<noteq> []" using Cons.prems by (auto simp: is_word_def)
  have "w @ spaced (v # vs) = (w @ [CHR '' '']) @ (v @ spaced vs)"
    by (simp add: spaced_Cons)
  then have "last (w @ spaced (v # vs)) = last (v @ spaced vs)"
    using vne by (simp only: last_append) simp
  moreover have "hd (w @ spaced (v # vs)) = hd w" using Cons.prems by (auto simp: is_word_def)
  moreover have "\<not> is_space (hd w)" using Cons.prems by (auto simp: is_word_def list_all_iff alnum_not_space)
  ultimately show ?case using Cons.IH [of v] Cons.prems by simp
qed

lemma py_strip_tidy:
  "is_word w \<Longrightarrow> \<forall>v \<in> set ws. is_word v \<Longrightarrow> py_strip (w @ spaced ws) = w @ spaced ws"
  using tidy_edges [of w ws] by (intro py_strip_edges) (auto simp: is_word_def)

lemma py_replace_word:
  "\<forall>c \<in> set w. c \<noteq> CHR '' '' \<Longrightarrow>
   py_replace (CHR '' '' # x) new (w @ rest) = w @ py_replace (CHR '' '' # x) new rest"
  by (induction w) auto

lemma prefix_word_blank:
  "\<forall>c \<in> set a. c \<noteq> CHR '' '' \<Longrightarrow> \<forall>c \<in> set w. c \<noteq> CHR '' '' \<Longrightarrow>
   rest = [] \<or> hd rest = CHR '' '' \<Longrightarrow>
   prefix (a @ [CHR '' '']) (w @ rest) \<longleftrightarrow> a = w \<and> rest \<noteq> []"
proof (induction a arbitrary: w)
  case Nil
  then show ?case by (cases w; cases rest) auto
next
  case (Cons x a)
  show ?case
  proof (cases w)
    case Nil
    then show ?thesis using Cons.prems by (cases rest) auto
  next
    case (Cons y w')
    then show ?thesis using Cons.prems Cons.IH [of w'] by auto
  qed
qed

lemma py_replace_spaced:
  "\<forall>c \<in> set a. c \<noteq> CHR '' '' \<Longrightarrow> \<forall>w \<in> set ws. \<forall>c \<in> set w. c \<noteq> CHR '' '' \<Longrightarrow>
   py_replace (CHR '' '' # a @ [CHR '' '']) (CHR '' '' # b @ [CHR '' '']) (spaced ws)
     = spaced (srep a b ws)"
proof (induction a b ws rule: srep.induct)
  case (1 a b)
  then show ?case by simp
next
  case (2 a b w)
  have "\<not> prefix (a @ [CHR '' '']) (w @ [])"
    using prefix_word_blank [of a w "[]"] 2 by simp
  then show ?case
    using 2 py_replace_word [of w "a @ [CHR '' '']" "CHR '' '' # b @ [CHR '' '']" "[]"]
    by (simp add: spaced_Cons)
next
  case (3 a b w w' ws)
  let ?old = "CHR '' '' # a @ [CHR '' '']" and ?new = "CHR '' '' # b @ [CHR '' '']"
  have p: "prefix (a @ [CHR '' '']) (w @ spaced (w' # ws)) \<longleftrightarrow> a = w"
    using prefix_word_blank [of a w "spaced (w' # ws)"] 3 by (simp add: spaced_Cons)
  show ?case
  proof (cases "w = a")
    case True
    have "py_replace ?old ?new (spaced (w # w' # ws))
            = ?new @ py_replace ?old ?new (w' @ spaced ws)"
      using p True by (simp add: spaced_Cons)
    also have "\<dots> = ?new @ w' @ py_replace ?old ?new (spaced ws)"
      using py_replace_word [of w' "a @ [CHR '' '']" ?new "spaced ws"] 3 by simp
    also have "\<dots> = ?new @ w' @ spaced (srep a b ws)"
      using 3 True by simp
    finally show ?thesis using True by (simp add: spaced_Cons)
  next
    case False
    have "py_replace ?old ?new (spaced (w # w' # ws))
            = CHR '' '' # py_replace ?old ?new (w @ spaced (w' # ws))"
      using p False by (auto simp: spaced_Cons)
    also have "\<dots> = CHR '' '' # w @ py_replace ?old ?new (spaced (w' # ws))"
      using py_replace_word [of w "a @ [CHR '' '']" ?new "spaced (w' # ws)"] 3 by simp
    also have "\<dots> = CHR '' '' # w @ spaced (srep a b (w' # ws))"
      using 3 False by simp
    finally show ?thesis using False by (simp add: spaced_Cons)
  qed
qed

lemma apply_replacement_tidy:
  assumes "is_word a" "is_word w" "\<forall>v \<in> set ws. is_word v"
  shows "apply_replacement (a, b) (w @ spaced ws) = w @ spaced (srep a b ws)"
proof -
  have nb_a: "\<forall>c \<in> set a. c \<noteq> CHR '' ''" by (rule is_word_no_blank [OF assms(1)])
  have nb_w: "\<forall>c \<in> set w. c \<noteq> CHR '' ''" by (rule is_word_no_blank [OF assms(2)])
  have nb_ws: "\<forall>v \<in> set ws. \<forall>c \<in> set v. c \<noteq> CHR '' ''"
    using assms(3) is_word_no_blank by blast
  have "apply_replacement (a, b) (w @ spaced ws)
          = py_replace (CHR '' '' # a @ [CHR '' '']) (CHR '' '' # b @ [CHR '' '']) (w @ spaced ws)"
    by (simp add: apply_replacement_def)
  also have "\<dots> = w @ py_replace (CHR '' '' # a @ [CHR '' '']) (CHR '' '' # b @ [CHR '' '']) (spaced ws)"
    by (rule py_replace_word [OF nb_w])
  also have "\<dots> = w @ spaced (srep a b ws)"
    by (simp only: py_replace_spaced [OF nb_a nb_ws])
  finally show ?thesis .
qed

lemma srep_words: "is_word b \<Longrightarrow> \<forall>v \<in> set ws. is_word v \<Longrightarrow> \<forall>v \<in> set (srep a b ws). is_word v"
  by (induction a b ws rule: srep.induct) auto

lemma srep_set: "set (srep a b ws) \<subseteq> insert b (set ws)"
  by (induction a b ws rule: srep.induct) auto

lemma py_replace_absent: "\<not> py_contains old s \<Longrightarrow> py_replace old new s = s"
  by (induction s) auto

lemma sub_special_chars: "c \<in> set (sub_special s) \<Longrightarrow> is_lower_alnum c \<or> is_space c"
  by (auto simp: sub_special_def)

lemma prefilter_words: "v \<in> set (py_split (prefilter_text name)) \<Longrightarrow> is_word v"
proof -
  assume v: "v \<in> set (py_split (prefilter_text name))"
  let ?t = "sub_special (py_strip (py_lower name))"
  have ne: "v \<noteq> []" and sub: "set v \<subseteq> {c \<in> set (collapse_ws False ?t). \<not> is_space c}"
    using split_acc_chars [of v "[]" "collapse_ws False ?t"] v
    by (auto simp: py_split_def prefilter_text_def)
  have "is_lower_alnum c" if "c \<in> set v" for c
  proof -
    have c: "c \<in> set (collapse_ws False ?t)" "\<not> is_space c" using sub that by auto
    then have "c \<in> set ?t" using collapse_ws_chars [of False ?t] by auto
    then show ?thesis using sub_special_chars c(2) by blast
  qed
  then show ?thesis using ne by (simp add: is_word_def list_all_iff)
qed

lemma table_words:
  "is_word ''str''" "is_word ''street''" "is_word ''rd''" "is_word ''road''"
  "is_word ''ave''" "is_word ''avenue''" "is_word ''st''"
  by (simp_all add: is_word_def is_lower_alnum_def)

lemma norm_words_are_words: "v \<in> set (norm_words name) \<Longrightarrow> is_word v"
proof -
  assume v: "v \<in> set (norm_words name)"
  let ?ws = "py_split (prefilter_text name)"
  let ?fw = "filter (\<lambda>w. w \<notin> COMMON_SUFFIXES) ?ws"
  let ?fw' = "if ?fw = [] then take 2 ?ws else ?fw"
  have all: "\<forall>x \<in> set ?fw'. is_word x"
    using prefilter_words [of _ name] by (auto dest: in_set_takeD)
  show ?thesis
  proof (cases ?fw')
    case Nil
    then show ?thesis using v by (simp add: norm_words_def Let_def)
  next
    case (Cons w rest)
    then have w: "is_word w" and r: "\<forall>x \<in> set rest. is_word x"
      using all by auto
    have "\<forall>x \<in> set (srep ''st'' ''street'' (srep ''ave'' ''avenue'' (srep ''rd'' ''road''
                   (srep ''str'' ''street'' rest)))). is_word x"
      by (intro srep_words table_words r)
    then show ?thesis using v Cons w by (auto simp: norm_words_def Let_def)
  qed
qed

lemma normalize_name_words: "normalize_name name = py_join '' '' (norm_words name)"
proof (cases "name = []")
  case True
  then show ?thesis
    by (simp add: normalize_name_def norm_words_def prefilter_text_def py_split_def py_strip_def
        py_lower_def sub_special_def)
next
  case False
  let ?ws = "py_split (prefilter_text name)"
  let ?fw = "filter (\<lambda>w. w \<notin> COMMON_SUFFIXES) ?ws"
  let ?fw' = "if ?fw = [] then take 2 ?ws else ?fw"
  have n: "normalize_name name = py_strip (fold apply_replacement REPLACEMENTS (py_join '' '' ?fw'))"
    using False by (simp add: normalize_name_def Let_def prefilter_text_def)
  have all: "\<forall>x \<in> set ?fw'. is_word x"
    using prefilter_words [of _ name] by (auto dest: in_set_takeD)
  show ?thesis
  proof (cases ?fw')
    case Nil
    then show ?thesis using n
      by (simp add: norm_words_def Let_def REPLACEMENTS_def apply_replacement_def py_strip_def)
  next
    case (Cons w rest)
    then have w: "is_word w" and r: "\<forall>x \<in> set rest. is_word x"
      using all by auto
    let ?r1 = "srep ''str'' ''street'' rest"
    let ?r2 = "srep ''rd'' ''road'' ?r1"
    let ?r3 = "srep ''ave'' ''avenue'' ?r2"
    let ?r4 = "srep ''st'' ''street'' ?r3"
    have r1: "\<forall>x \<in> set ?r1. is_word x" by (intro srep_words table_words r)
    have r2: "\<forall>x \<in> set ?r2. is_word x" by (intro srep_words table_words r)
    have r3: "\<forall>x \<in> set ?r3. is_word x" by (intro srep_words table_words r)
    have r4: "\<forall>x \<in> set ?r4. is_word x" by (intro srep_words table_words r)
    have f: "fold apply_replacement REPLACEMENTS x =
        apply_replacement (''st'', ''street'') (apply_replacement (''ave'', ''avenue'')
          (apply_replacement (''rd'', ''road'') (apply_replacement (''str'', ''street'') x)))" for x
      unfolding REPLACEMENTS_def by (simp only: fold_simps)
    have j: "py_join '' '' ?fw' = w @ spaced rest"
      unfolding Cons by (rule py_join_spaced)
    have "fold apply_replacement REPLACEMENTS (py_join '' '' ?fw') = w @ spaced ?r4"
      by (simp only: f j
          apply_replacement_tidy [OF table_words(1) w r]
          apply_replacement_tidy [OF table_words(3) w r1]
          apply_replacement_tidy [OF table_words(5) w r2]
          apply_replacement_tidy [OF table_words(7) w r3])
    then have "normalize_name name = w @ spaced ?r4"
      using n py_strip_tidy [OF w r4] by simp
    moreover have "norm_words name = w # ?r4"
      using Cons by (simp add: norm_words_def Let_def)
    ultimately show ?thesis by (simp add: py_join_spaced)
  qed
qed

section \<open>Non-empty normal forms\<close>

lemma srep_short: "length ws \<le> 1 \<Longrightarrow> srep a b ws = ws"
  by (cases ws) auto

lemma norm_words_Nil_iff: "norm_words name = [] \<longleftrightarrow> py_split (prefilter_text name) = []"
proof -
  let ?ws = "py_split (prefilter_text name)"
  let ?fw = "filter (\<lambda>w. w \<notin> COMMON_SUFFIXES) ?ws"
  show ?thesis
  proof (cases "?fw = []")
    case True
    then show ?thesis
      by (cases ?ws) (simp_all add: norm_words_def Let_def)
  next
    case False
    then have ne: "?ws \<noteq> []" by auto
    obtain w rest where "?fw = w # rest" using False by (cases ?fw) auto
    then show ?thesis using ne False by (simp add: norm_words_def Let_def)
  qed
qed

lemma normalize_name_Nil_iff: "normalize_name name = [] \<longleftrightarrow> norm_words name = []"
proof (cases "norm_words name")
  case Nil
  then show ?thesis by (simp add: normalize_name_words)
next
  case (Cons w ws)
  then have "is_word w" using norm_words_are_words [of w name] by simp
  then show ?thesis using Cons by (simp add: normalize_name_words py_join_spaced is_word_def)
qed

lemma collapse_ws_nonspace: "c \<in> set (collapse_ws f s) \<Longrightarrow> \<not> is_space c \<Longrightarrow> c \<in> set s"
  by (induction s arbitrary: f) (auto split: if_splits)

lemma sub_special_nonspace_iff:
  "(\<exists>c \<in> set (sub_special s). \<not> is_space c) \<longleftrightarrow> (\<exists>c \<in> set s. is_lower_alnum c)"
proof (induction s)
  case Nil
  show ?case by (simp add: sub_special_def)
next
  case (Cons x s)
  have "\<not> is_space (if is_lower_alnum x \<or> is_space x then x else CHR '' '') \<longleftrightarrow> is_lower_alnum x"
    using alnum_not_space [of x] by auto
  then show ?case using Cons by (simp add: sub_special_def)
qed

lemma py_strip_alnum_iff:
  "(\<exists>c \<in> set (py_strip s). is_lower_alnum c) \<longleftrightarrow> (\<exists>c \<in> set s. is_lower_alnum c)"
proof
  assume "\<exists>c \<in> set (py_strip s). is_lower_alnum c"
  then obtain c where "c \<in> set (py_strip s)" "is_lower_alnum c" by blast
  then show "\<exists>c \<in> set s. is_lower_alnum c"
    using py_strip_subset [of s] by blast
next
  assume "\<exists>c \<in> set s. is_lower_alnum c"
  then obtain c where c: "c \<in> set s" "is_lower_alnum c" by blast
  then have "c \<in> set (py_strip s)"
    by (intro py_strip_keeps alnum_not_space)
  then show "\<exists>c \<in> set (py_strip s). is_lower_alnum c" using c by blast
qed

lemma prefilter_has_word_iff:
  "py_split (prefilter_text name) \<noteq> [] \<longleftrightarrow> (\<exists>c \<in> set (py_lower name). is_lower_alnum c)"
proof -
  let ?v = "py_strip (py_lower name)"
  let ?u = "sub_special ?v"
  have 1: "py_split (prefilter_text name) \<noteq> [] \<longleftrightarrow> (\<exists>c \<in> set (collapse_ws False ?u). \<not> is_space c)"
    by (simp add: py_split_def prefilter_text_def split_acc_Nil_iff)
  have 2: "(\<exists>c \<in> set (collapse_ws False ?u). \<not> is_space c) \<longleftrightarrow> (\<exists>c \<in> set ?u. \<not> is_space c)"
    using collapse_ws_nonspace [of _ False ?u] collapse_ws_keeps [of _ ?u False] by blast
  show ?thesis
    by (simp only: 1 2 sub_special_nonspace_iff py_strip_alnum_iff)
qed

text \<open>
  Against claim C3: the input \<open>!!!\<close> is non-empty and its normal form is empty.
\<close>

theorem normalize_name_punctuation_counterexample:
  "''!!!'' \<noteq> [] \<and> normalize_name ''!!!'' = []"
  by code_simp

text \<open>
  Claim C3, amended.  \<open>normalize\<close> returns a non-empty string exactly for the inputs
  whose lower-cased form \<open>name.lower()\<close> holds a character \<open>a-z\<close> or \<open>0-9\<close>.  When the
  removal of the stop words leaves no word, the result is the first two words of the
  text before the removal, joined by a space.
\<close>

theorem normalize_name_nonempty_iff:
  "(normalize_name name \<noteq> [] \<longleftrightarrow> (\<exists>c \<in> set (py_lower name). is_lower_alnum c))
   \<and> (filter (\<lambda>w. w \<notin> COMMON_SUFFIXES) (py_split (prefilter_text name)) = [] \<longrightarrow>
        normalize_name name = py_join '' '' (take 2 (py_split (prefilter_text name))))"
proof
  show "normalize_name name \<noteq> [] \<longleftrightarrow> (\<exists>c \<in> set (py_lower name). is_lower_alnum c)"
    using normalize_name_Nil_iff [of name] norm_words_Nil_iff [of name] prefilter_has_word_iff [of name]
    by simp
next
  let ?ws = "py_split (prefilter_text name)"
  show "filter (\<lambda>w. w \<notin> COMMON_SUFFIXES) ?ws = [] \<longrightarrow>
        normalize_name name = py_join '' '' (take 2 ?ws)"
  proof
    assume f: "filter (\<lambda>w. w \<notin> COMMON_SUFFIXES) ?ws = []"
    have "norm_words name = take 2 ?ws"
    proof (cases "take 2 ?ws")
      case Nil
      then show ?thesis using f by (simp add: norm_words_def Let_def)
    next
      case (Cons w rest)
      have "length (take 2 ?ws) \<le> 2" by simp
      then have "length rest \<le> 1" using Cons by simp
      then have "srep ''st'' ''street'' (srep ''ave'' ''avenue'' (srep ''rd'' ''road''
                   (srep ''str'' ''street'' rest))) = rest"
        by (simp only: srep_short)
      then show ?thesis using f Cons by (simp add: norm_words_def Let_def)
    qed
    then show "normalize_name name = py_join '' '' (take 2 ?ws)"
      by (simp add: normalize_name_words)
  qed
qed

text \<open>The input \<open>Lagos State, Nigeria\<close>: all three words are stop words.\<close>

theorem normalize_name_nonempty_iff_witness:
  "(normalize_name ''Lagos State, Nigeria'' \<noteq> [] \<longleftrightarrow>
      (\<exists>c \<in> set (py_lower ''Lagos State, Nigeria''). is_lower_alnum c))
   \<and> filter (\<lambda>w. w \<notin> COMMON_SUFFIXES) (py_split (prefilter_text ''Lagos State, Nigeria'')) = []
   \<and> normalize_name ''Lagos State, Nigeria'' = ''lagos state''"
proof -
  have f: "filter (\<lambda>w. w \<notin> COMMON_SUFFIXES) (py_split (prefilter_text ''Lagos State, Nigeria'')) = []"
    by code_simp
  have j: "py_join '' '' (take 2 (py_split (prefilter_text ''Lagos State, Nigeria''))) = ''lagos state''"
    by code_simp
  note t = normalize_name_nonempty_iff [of "''Lagos State, Nigeria''"]
  have a: "normalize_name ''Lagos State, Nigeria''
             = py_join '' '' (take 2 (py_split (prefilter_text ''Lagos State, Nigeria'')))"
    using t f by blast
  show ?thesis
    using t f a [unfolded j] by blast
qed

section \<open>Idempotence of the normaliser\<close>

lemma tidy_chars:
  assumes "is_word w" "\<forall>v \<in> set ws. is_word v" "c \<in> set (w @ spaced ws)"
  shows "is_lower_alnum c \<or> c = CHR '' ''"
proof -
  have "set (spaced ws) \<subseteq> insert (CHR '' '') (\<Union>v \<in> set ws. set v)"
    by (induction ws) (auto simp: spaced_Cons)
  then have "c \<in> set w \<or> c = CHR '' '' \<or> (\<exists>v \<in> set ws. c \<in> set v)"
    using assms(3) by auto
  then show ?thesis
    using assms(1,2) by (auto simp: is_word_def list_all_iff)
qed

lemma py_lower_tidy:
  assumes "is_word w" "\<forall>v \<in> set ws. is_word v"
  shows "py_lower (w @ spaced ws) = w @ spaced ws"
  unfolding py_lower_def
proof (rule map_idI)
  fix c assume "c \<in> set (w @ spaced ws)"
  then have "is_lower_alnum c \<or> c = CHR '' ''" using tidy_chars [OF assms] by blast
  then show "lower_char c = c" using lower_char_alnum by auto
qed

lemma sub_special_tidy:
  assumes "is_word w" "\<forall>v \<in> set ws. is_word v"
  shows "sub_special (w @ spaced ws) = w @ spaced ws"
  unfolding sub_special_def
proof (rule map_idI)
  fix c assume "c \<in> set (w @ spaced ws)"
  then have "is_lower_alnum c \<or> c = CHR '' ''" using tidy_chars [OF assms] by blast
  then show "(if is_lower_alnum c \<or> is_space c then c else CHR '' '') = c" by auto
qed

lemma prefilter_text_tidy:
  assumes "is_word w" "\<forall>v \<in> set ws. is_word v"
  shows "prefilter_text (w @ spaced ws) = w @ spaced ws"
  by (simp only: prefilter_text_def py_lower_tidy [OF assms] py_strip_tidy [OF assms]
      sub_special_tidy [OF assms] collapse_ws_tidy [OF assms])

lemma expansions_not_stop:
  "''street'' \<notin> COMMON_SUFFIXES" "''road'' \<notin> COMMON_SUFFIXES" "''avenue'' \<notin> COMMON_SUFFIXES"
  by (simp_all add: COMMON_SUFFIXES_def)

lemma srep_not_stop:
  "b \<notin> COMMON_SUFFIXES \<Longrightarrow> \<forall>v \<in> set ws. v \<notin> COMMON_SUFFIXES \<Longrightarrow>
   \<forall>v \<in> set (srep a b ws). v \<notin> COMMON_SUFFIXES"
  using srep_set [of a b ws] by blast

lemma norm_words_shape:
  "(norm_words name \<noteq> [] \<and> (\<forall>v \<in> set (norm_words name). v \<notin> COMMON_SUFFIXES))
   \<or> (length (norm_words name) \<le> 2 \<and> (\<forall>v \<in> set (norm_words name). v \<in> COMMON_SUFFIXES))"
proof -
  let ?ws = "py_split (prefilter_text name)"
  let ?fw = "filter (\<lambda>w. w \<notin> COMMON_SUFFIXES) ?ws"
  show ?thesis
  proof (cases ?fw)
    case Nil
    then have stop: "\<forall>v \<in> set ?ws. v \<in> COMMON_SUFFIXES"
      by (simp add: filter_empty_conv)
    have nw: "norm_words name = take 2 ?ws"
    proof (cases "take 2 ?ws")
      case n: Nil
      then show ?thesis using Nil by (simp add: norm_words_def Let_def)
    next
      case (Cons w rest)
      have "length (take 2 ?ws) \<le> 2" by simp
      then have "length rest \<le> 1" using Cons by simp
      then have "srep ''st'' ''street'' (srep ''ave'' ''avenue'' (srep ''rd'' ''road''
                   (srep ''str'' ''street'' rest))) = rest"
        by (simp only: srep_short)
      then show ?thesis using Nil Cons by (simp add: norm_words_def Let_def)
    qed
    have "\<forall>v \<in> set (take 2 ?ws). v \<in> COMMON_SUFFIXES"
      using stop by (auto dest: in_set_takeD)
    then show ?thesis by (simp add: nw)
  next
    case (Cons w rest)
    have "\<forall>v \<in> set ?fw. v \<notin> COMMON_SUFFIXES" by simp
    then have w: "w \<notin> COMMON_SUFFIXES" and r: "\<forall>v \<in> set rest. v \<notin> COMMON_SUFFIXES"
      unfolding Cons by simp_all
    have "\<forall>v \<in> set (srep ''st'' ''street'' (srep ''ave'' ''avenue'' (srep ''rd'' ''road''
                   (srep ''str'' ''street'' rest)))). v \<notin> COMMON_SUFFIXES"
      by (intro srep_not_stop expansions_not_stop r)
    moreover have "norm_words name = w # srep ''st'' ''street'' (srep ''ave'' ''avenue''
                     (srep ''rd'' ''road'' (srep ''str'' ''street'' rest)))"
      using Cons by (simp add: norm_words_def Let_def)
    ultimately show ?thesis using w by simp
  qed
qed

lemma fold_replacements_absent:
  assumes "\<forall>p \<in> set REPLACEMENTS. \<not> py_contains ('' '' @ fst p @ '' '') y"
  shows "fold apply_replacement REPLACEMENTS y = y"
proof -
  have step: "apply_replacement p y = y" if "p \<in> set REPLACEMENTS" for p
    using assms that by (simp add: apply_replacement_def py_replace_absent)
  have "fold apply_replacement ps y = y" if "set ps \<subseteq> set REPLACEMENTS" for ps
    using that by (induction ps) (simp_all add: step)
  then show ?thesis by simp
qed

lemma normalize_name_unfold:
  "name \<noteq> [] \<Longrightarrow>
   normalize_name name =
     py_strip (fold apply_replacement REPLACEMENTS
       (py_join '' ''
          (if filter (\<lambda>v. v \<notin> COMMON_SUFFIXES) (py_split (prefilter_text name)) = []
           then take 2 (py_split (prefilter_text name))
           else filter (\<lambda>v. v \<notin> COMMON_SUFFIXES) (py_split (prefilter_text name)))))"
  by (simp add: normalize_name_def Let_def prefilter_text_def)

text \<open>
  Claim C4 says that \<open>normalize(normalize(x))\<close> equals \<open>normalize(x)\<close> for every \<open>x\<close>.
  On the input \<open>a st st b\<close> the code does otherwise: \<open>replace(' st ', ' street ')\<close>
  takes the first \<open>st\<close> together with the space after it, so the second \<open>st\<close>, which
  stands between spaces in the input, is left as it is; a second run expands it.
\<close>

theorem normalize_name_not_idempotent_on_adjacent_abbreviations:
  "normalize_name ''a st st b'' = ''a street st b''
   \<and> normalize_name (normalize_name ''a st st b'') = ''a street street b''
   \<and> normalize_name (normalize_name ''a st st b'') \<noteq> normalize_name ''a st st b''"
  by code_simp

text \<open>
  On every other input the normaliser is idempotent: \<open>normalize(normalize(x))\<close> equals
  \<open>normalize(x)\<close> whenever the first run leaves no abbreviation of the table as a word
  between two other words, that is, none of the texts \<open>" str "\<close>, \<open>" rd "\<close>,
  \<open>" ave "\<close>, \<open>" st "\<close>.
\<close>

theorem normalize_name_idempotent_when_expanded:
  assumes "\<forall>p \<in> set REPLACEMENTS. \<not> py_contains ('' '' @ fst p @ '' '') (normalize_name x)"
  shows "normalize_name (normalize_name x) = normalize_name x"
proof (cases "norm_words x")
  case Nil
  then have "normalize_name x = []" by (simp add: normalize_name_words)
  then show ?thesis by (simp add: normalize_name_def)
next
  case (Cons w r)
  let ?y = "w @ spaced r"
  have y: "normalize_name x = ?y"
    by (simp add: normalize_name_words Cons py_join_spaced)
  have w: "is_word w" and r: "\<forall>v \<in> set r. is_word v"
    using norm_words_are_words [of _ x] Cons by simp_all
  have ne: "?y \<noteq> []" using w by (simp add: is_word_def)
  have pt: "prefilter_text ?y = ?y" by (rule prefilter_text_tidy [OF w r])
  have sp: "py_split ?y = w # r" by (rule py_split_tidy [OF w r])
  let ?fw = "filter (\<lambda>v. v \<notin> COMMON_SUFFIXES) (w # r)"
  have fw: "(if ?fw = [] then take 2 (w # r) else ?fw) = w # r"
    using norm_words_shape [of x] unfolding Cons
  proof
    assume "w # r \<noteq> [] \<and> (\<forall>v \<in> set (w # r). v \<notin> COMMON_SUFFIXES)"
    then have "?fw = w # r" by (simp only: filter_id_conv) blast
    then show ?thesis by simp
  next
    assume a: "length (w # r) \<le> 2 \<and> (\<forall>v \<in> set (w # r). v \<in> COMMON_SUFFIXES)"
    then have "?fw = []" by (simp only: filter_empty_conv) blast
    then show ?thesis using a by simp
  qed
  have "normalize_name ?y
          = py_strip (fold apply_replacement REPLACEMENTS
              (py_join '' '' (if ?fw = [] then take 2 (w # r) else ?fw)))"
    by (simp only: normalize_name_unfold [OF ne] pt sp)
  also have "\<dots> = py_strip (fold apply_replacement REPLACEMENTS ?y)"
    by (simp only: fw py_join_spaced)
  also have "\<dots> = py_strip ?y"
    using fold_replacements_absent [of ?y] assms y by simp
  also have "\<dots> = ?y" by (rule py_strip_tidy [OF w r])
  finally show ?thesis by (simp only: y)
qed

text \<open>The input \<open>12 Allen Ave, Ikeja\<close>: its one abbreviation is expanded by the first run.\<close>

theorem normalize_name_idempotent_when_expanded_witness:
  "\<not> py_contains '' str '' (normalize_name ''12 Allen Ave, Ikeja'')
   \<and> \<not> py_contains '' rd '' (normalize_name ''12 Allen Ave, Ikeja'')
   \<and> \<not> py_contains '' ave '' (normalize_name ''12 Allen Ave, Ikeja'')
   \<and> \<not> py_contains '' st '' (normalize_name ''12 Allen Ave, Ikeja'')
   \<and> normalize_name ''12 Allen Ave, Ikeja'' = ''12 allen avenue ikeja''
   \<and> normalize_name (normalize_name ''12 Allen Ave, Ikeja'') = ''12 allen avenue ikeja''"
proof -
  have n: "normalize_name ''12 Allen Ave, Ikeja'' = ''12 allen avenue ikeja''" by code_simp
  have c: "\<not> py_contains '' str '' ''12 allen avenue ikeja''"
    "\<not> py_contains '' rd '' ''12 allen avenue ikeja''"
    "\<not> py_contains '' ave '' ''12 allen avenue ikeja''"
    "\<not> py_contains '' st '' ''12 allen avenue ikeja''"
    by code_simp+
  have h: "\<forall>p \<in> set REPLACEMENTS.
             \<not> py_contains ('' '' @ fst p @ '' '') (normalize_name ''12 Allen Ave, Ikeja'')"
    unfolding n using c by (simp add: REPLACEMENTS_def)
  show ?thesis
    using normalize_name_idempotent_when_expanded [OF h] c by (simp only: n simp_thms)
qed

end
